theory Spec2Isabelle
  imports Complex_Main "HOL-Library.Log_Nat"
begin

section \<open>Drive Rotate Viewer: a model of \<^verbatim>\<open>src/content.js\<close>\<close>

text \<open>
  The content script keeps five globals (\<^verbatim>\<open>currentFileId\<close>, \<^verbatim>\<open>currentTarget\<close>,
  \<^verbatim>\<open>angle\<close>, \<^verbatim>\<open>flipX\<close>, \<^verbatim>\<open>initAttempts\<close>) and reacts to browser events. The
  model below follows the script function by function. What the browser supplies (the
  result of \<^verbatim>\<open>querySelectorAll\<close>, the measured properties of an element, the
  contents of \<^verbatim>\<open>chrome.storage.local\<close>, whether a write is accepted) is a parameter
  of the modelled function or a field of the modelled page.

  JavaScript numbers are doubles. The model writes them as rationals: pixel measures
  as \<^typ>\<open>rat\<close>, intrinsic media sizes (unsigned integers in the DOM) as \<^typ>\<open>nat\<close>,
  the angle as \<^typ>\<open>int\<close>. Comparisons of doubles are exact and are modelled as they
  stand. The one product of two measures the script computes, the area of a rendered
  box, is rounded as a double multiplication rounds it (\<open>to_double\<close> below). The angle
  arithmetic stays far below \<open>2 ^ 53\<close> on the angles the script produces, where
  doubles are exact.
\<close>

subsection \<open>Utilities (lines 1--54)\<close>

definition STORAGE_PREFIX :: string where
  "STORAGE_PREFIX = ''gdr:rotation:''"

text \<open>\<^verbatim>\<open>String.prototype.includes\<close>: the needle occurs somewhere in the string.\<close>

fun str_includes :: "string \<Rightarrow> string \<Rightarrow> bool" where
  "str_includes [] needle = (needle = [])"
| "str_includes (c # cs) needle =
     (take (length needle) (c # cs) = needle \<or> str_includes cs needle)"

text \<open>
  JavaScript truthiness of an optional string (\<^verbatim>\<open>null\<close>/\<^verbatim>\<open>undefined\<close> is
  \<open>None\<close>): the empty string is falsy too.
\<close>

definition truthy_str :: "string option \<Rightarrow> bool" where
  "truthy_str v = (case v of None \<Rightarrow> False | Some s \<Rightarrow> s \<noteq> [])"

text \<open>
  \<^verbatim>\<open>a || b\<close> on numbers: \<open>a\<close> when it is truthy, else \<open>b\<close>. An optional number is
  falsy when it is \<^verbatim>\<open>undefined\<close> or \<open>0\<close>.
\<close>

definition num_or :: "nat option \<Rightarrow> rat \<Rightarrow> rat" where
  "num_or a b = (case a of None \<Rightarrow> b | Some n \<Rightarrow> if n \<noteq> 0 then of_nat n else b)"

text \<open>
  \<^verbatim>\<open>getFileIdFromUrl\<close>: the first match of \<^verbatim>\<open>/\/file\/d\/([^/]+)/\<close>. The match
  starts at the leftmost position where \<^verbatim>\<open>/file/d/\<close> is followed by at least one
  character other than a slash; the group is the longest run of such characters.
\<close>

fun getFileIdFromUrl :: "string \<Rightarrow> string option" where
  "getFileIdFromUrl [] = None"
| "getFileIdFromUrl (c # cs) =
     (if take 8 (c # cs) = ''/file/d/'' \<and> takeWhile (\<lambda>x. x \<noteq> CHR ''/'') (drop 8 (c # cs)) \<noteq> []
      then Some (takeWhile (\<lambda>x. x \<noteq> CHR ''/'') (drop 8 (c # cs)))
      else getFileIdFromUrl cs)"

text \<open>
  \<^verbatim>\<open>isDriveFilePreviewUrl\<close>: the pattern
  \<^verbatim>\<open>/https:\/\/drive\.google\.com\/file\/d\/[^/]+\/(view|preview)/\<close> matches somewhere.
  After the fixed prefix the run of non-slash characters must be non-empty and must be
  followed by \<^verbatim>\<open>/view\<close> or \<^verbatim>\<open>/preview\<close>.
\<close>

fun isDriveFilePreviewUrl :: "string \<Rightarrow> bool" where
  "isDriveFilePreviewUrl [] = False"
| "isDriveFilePreviewUrl (c # cs) =
     ((take 32 (c # cs) = ''https://drive.google.com/file/d/''
       \<and> takeWhile (\<lambda>x. x \<noteq> CHR ''/'') (drop 32 (c # cs)) \<noteq> []
       \<and> (take 5 (dropWhile (\<lambda>x. x \<noteq> CHR ''/'') (drop 32 (c # cs))) = ''/view''
          \<or> take 8 (dropWhile (\<lambda>x. x \<noteq> CHR ''/'') (drop 32 (c # cs))) = ''/preview''))
      \<or> isDriveFilePreviewUrl cs)"

definition isDriveUrl :: "string \<Rightarrow> bool" where
  "isDriveUrl url = str_includes url ''drive.google.com''"

subsection \<open>The state store (lines 40--54)\<close>

text \<open>
  A stored record. The script writes both fields; a record read back may lack either
  (\<^verbatim>\<open>saved?.angle ?? 0\<close> provides for it), so both are optional.
\<close>

record persisted =
  p_angle :: "int option"
  p_flipX :: "bool option"

type_synonym storage = "string \<rightharpoonup> persisted"

text \<open>A settled promise: fulfilled, or rejected with a reason.\<close>

datatype promise = Fulfilled | Rejected string

text \<open>
  \<^verbatim>\<open>chrome.storage.local.set({[key]: v})\<close>. Whether the browser accepts the write
  is the parameter \<open>ok\<close>: an accepted write stores the value and fulfils, a refused
  one stores nothing and rejects.
\<close>

definition storage_set :: "bool \<Rightarrow> string \<Rightarrow> persisted \<Rightarrow> storage \<Rightarrow> promise \<times> storage" where
  "storage_set ok key v st =
     (if ok then (Fulfilled, st(key \<mapsto> v)) else (Rejected ''write rejected'', st))"

text \<open>\<^verbatim>\<open>.catch(() => {})\<close>: a rejection is handled and the result is fulfilled.\<close>

definition catch_ignore :: "promise \<Rightarrow> promise" where
  "catch_ignore p = (case p of Fulfilled \<Rightarrow> Fulfilled | Rejected _ \<Rightarrow> Fulfilled)"

text \<open>
  \<^verbatim>\<open>saveState(fileId, state)\<close>. The result is the promise left behind (what could
  still surface as an unhandled rejection) and the storage afterwards.
\<close>

definition saveState :: "string option \<Rightarrow> persisted \<Rightarrow> bool \<Rightarrow> storage \<Rightarrow> promise \<times> storage" where
  "saveState fileId state ok st =
     (case fileId of
        None \<Rightarrow> (Fulfilled, st)
      | Some fid \<Rightarrow>
          if fid = [] then (Fulfilled, st)
          else let key = STORAGE_PREFIX @ fid;
                   r = storage_set ok key state st
               in (catch_ignore (fst r), snd r))"

text \<open>
  \<^verbatim>\<open>loadState(fileId)\<close>: the value the promise resolves with, \<open>None\<close> for
  \<^verbatim>\<open>null\<close>. A stored record is an object and so truthy: \<^verbatim>\<open>obj[key] || null\<close> is the
  record when there is one.
\<close>

definition loadState :: "string option \<Rightarrow> storage \<Rightarrow> persisted option" where
  "loadState fileId st =
     (case fileId of
        None \<Rightarrow> None
      | Some fid \<Rightarrow> if fid = [] then None else st (STORAGE_PREFIX @ fid))"

subsection \<open>The target locator (lines 56--149)\<close>

text \<open>
  An element as the locator sees it: its identity, its tag, what
  \<^verbatim>\<open>getBoundingClientRect\<close> and \<^verbatim>\<open>getComputedStyle\<close> report, whether it has an
  \<^verbatim>\<open>offsetParent\<close>, its intrinsic sizes (\<open>None\<close> where the property is
  \<^verbatim>\<open>undefined\<close>: an image has no \<^verbatim>\<open>videoWidth\<close>, a video no \<^verbatim>\<open>naturalWidth\<close>)
  and its \<^verbatim>\<open>src\<close>.
\<close>

record element =
  el_id :: nat
  tagName :: string
  rect_width :: rat
  rect_height :: rat
  display :: string
  visibility :: string
  position :: string
  offsetParent :: bool
  naturalWidth :: "nat option"
  naturalHeight :: "nat option"
  videoWidth :: "nat option"
  videoHeight :: "nat option"
  src :: "string option"

text \<open>The page: what \<^verbatim>\<open>document.querySelectorAll\<close> returns for a selector.\<close>

type_synonym document = "string \<Rightarrow> element list"

definition selectors :: "string list" where
  \<open>selectors =
    [''[data-testid="preview-image"] img'',
     ''[data-testid="preview-video"] video'',
     ''[role="main"] img'',
     ''[role="main"] video'',
     ''[aria-label*="preview"] img'',
     ''[aria-label*="preview"] video'',
     ''img[src*="googleusercontent.com"]'',
     ''video[src*="googleusercontent.com"]'',
     ''img[src*="docs.google.com"]'',
     ''video[src*="docs.google.com"]'',
     ''[role="img"] img'',
     ''.ndfHFb-c4YZDc img'',
     ''.ndfHFb-c4YZDc video'',
     ''img[src*="drive.google.com"]'',
     ''video[src*="drive.google.com"]'',
     ''img'',
     ''video'']\<close>

text \<open>\<^verbatim>\<open>el.naturalWidth || el.videoWidth || rect.width\<close>, and the same for the height.\<close>

definition size_w :: "element \<Rightarrow> rat" where
  "size_w el = num_or (naturalWidth el) (num_or (videoWidth el) (rect_width el))"

definition size_h :: "element \<Rightarrow> rat" where
  "size_h el = num_or (naturalHeight el) (num_or (videoHeight el) (rect_height el))"

text \<open>
  \<^verbatim>\<open>el.src && (el.src.includes('icon') || el.src.includes('thumbnail') ||
  el.src.includes('favicon'))\<close>: a missing or empty \<^verbatim>\<open>src\<close> is falsy.
\<close>

definition looks_like_icon :: "string option \<Rightarrow> bool" where
  "looks_like_icon s =
     (case s of
        None \<Rightarrow> False
      | Some u \<Rightarrow> u \<noteq> [] \<and> (str_includes u ''icon'' \<or> str_includes u ''thumbnail''
                            \<or> str_includes u ''favicon''))"

text \<open>The callback of \<^verbatim>\<open>elements.filter\<close> (lines 89--115), check by check.\<close>

definition keep :: "element \<Rightarrow> bool" where
  "keep el =
     (if rect_width el < 30 \<or> rect_height el < 30 then False
      else if display el = ''none'' \<or> visibility el = ''hidden'' then False
      else if \<not> offsetParent el \<and> position el \<noteq> ''fixed'' \<and> position el \<noteq> ''absolute''
        then False
      else if size_w el < 50 \<or> size_h el < 50 then False
      else if looks_like_icon (src el) then False
      else True)"

text \<open>
  The loop over the selectors (lines 85--122): \<open>allCandidates\<close> when the loop ends.
  The loop leaves at the first selector whose filtered list is not empty.
\<close>

fun collect :: "document \<Rightarrow> string list \<Rightarrow> element list" where
  "collect doc [] = []"
| "collect doc (selector # rest) =
     (let filtered = filter keep (doc selector)
      in if length filtered > 0 then filtered else collect doc rest)"

text \<open>
  Rounding to the nearest integer, a tie going to the even one (the rounding of IEEE
  754 arithmetic).
\<close>

definition round_half_even :: "rat \<Rightarrow> int" where
  "round_half_even x =
     (let f = \<lfloor>x\<rfloor>; d = x - of_int f
      in if d < 1 / 2 then f
         else if 1 / 2 < d then f + 1
         else if even f then f else f + 1)"

text \<open>
  For \<open>x > 0\<close>, the exponent \<open>e\<close> with \<open>2 powi e \<le> x < 2 powi (e + 1)\<close>, computed from the bit
  lengths of numerator and denominator.
\<close>

definition floor_log2 :: "rat \<Rightarrow> int" where
  "floor_log2 x =
     (let d = bitlen (fst (quotient_of x)) - bitlen (snd (quotient_of x))
      in if 2 powi d \<le> x then d else d - 1)"

text \<open>
  The spacing of the doubles around \<open>x\<close>: 53 significant bits, and the spacing of the
  subnormal numbers below \<open>2 powi (- 1022)\<close>.
\<close>

definition ulp :: "rat \<Rightarrow> rat" where
  "ulp x = 2 powi (max (floor_log2 \<bar>x\<bar>) (- 1022) - 52)"

text \<open>
  The double a real result is rounded to (IEEE 754 binary64, round to nearest, ties to
  even). A result that rounds to \<open>2 ^ 1024\<close> or beyond overflows to an infinity, which
  is written here as \<open>2 ^ 1024\<close> with the sign of the result: beyond every finite
  double, and equal to itself.
\<close>

definition to_double :: "rat \<Rightarrow> rat" where
  "to_double x =
     (if x = 0 then 0
      else let r = of_int (round_half_even (x / ulp x)) * ulp x
           in if 2 powi 1024 \<le> \<bar>r\<bar> then sgn x * 2 powi 1024 else r)"

text \<open>\<^verbatim>\<open>r.width * r.height\<close> (line 142): a product of two doubles, rounded to a double.\<close>

definition area :: "element \<Rightarrow> rat" where
  "area el = to_double (rect_width el * rect_height el)"

text \<open>
  The comparator of lines 139--143: negative when \<open>a\<close> is to come before \<open>b\<close>. The
  script's difference of the two areas is rounded once more; the rounded difference
  of two doubles has the sign of the exact one and is zero only when they are equal,
  and the sort reads nothing but the sign. The difference of two infinite areas is
  \<^verbatim>\<open>NaN\<close> in the script, which the sort takes for \<open>0\<close>, as here.
\<close>

definition by_size :: "element \<Rightarrow> element \<Rightarrow> rat" where
  "by_size a b = area b - area a"

text \<open>
  \<^verbatim>\<open>Array.prototype.sort\<close> with a comparator. The language standard requires the
  sort to be stable; with a consistent comparator the result is the one of insertion
  sort, which puts an element before the first one it does not have to follow.
\<close>

fun insert_by :: "('a \<Rightarrow> 'a \<Rightarrow> rat) \<Rightarrow> 'a \<Rightarrow> 'a list \<Rightarrow> 'a list" where
  "insert_by cmp x [] = [x]"
| "insert_by cmp x (y # ys) =
     (if cmp x y \<le> 0 then x # y # ys else y # insert_by cmp x ys)"

definition array_sort :: "('a \<Rightarrow> 'a \<Rightarrow> rat) \<Rightarrow> 'a list \<Rightarrow> 'a list" where
  "array_sort cmp xs = foldr (insert_by cmp) xs []"

definition findLargestMediaElement :: "document \<Rightarrow> element option" where
  "findLargestMediaElement doc =
     (let allCandidates = collect doc selectors
      in if length allCandidates = 0 then None
         else (case array_sort by_size allCandidates of
                 [] \<Rightarrow> None
               | selected # _ \<Rightarrow> Some selected))"

subsection \<open>The page state\<close>

text \<open>
  The inline style the script writes on its target (lines 155--162): the class it adds,
  the transform \<^verbatim>\<open>rotate(<angle>deg)\<close> with \<^verbatim>\<open>scaleX(-1)\<close> appended when mirrored,
  \<^verbatim>\<open>objectFit\<close> (\<open>None\<close>: whatever the page had set) and the two maxima.
\<close>

record el_style =
  gdr_rot_target :: bool
  rotate_deg :: int
  mirrored :: bool
  objectFit :: "string option"
  maxWidth :: string
  maxHeight :: string

text \<open>
  The texts the status label can show: "Looking for media...", "Navigate to file
  preview", "Media found - Ready to rotate!", "Searching for media... (n)" and "No
  media found - click on image/video".
\<close>

datatype status =
    LookingForMedia
  | NavigateToPreview
  | MediaFound
  | Searching nat
  | NoMediaFound

text \<open>
  The globals of the script, the watcher's \<^verbatim>\<open>last\<close>, and the parts of the browser the
  script acts on: the status label (\<open>None\<close> while the page has no toolbar), the inline
  styles written so far (by element), the storage area, the storage reads that have
  been issued and not yet answered (each with the value it will deliver), and the
  number of pending \<^verbatim>\<open>setTimeout(assignTarget, 1000)\<close> timers.
\<close>

record page =
  currentFileId :: "string option"
  currentTarget :: "element option"
  angle :: int
  flipX :: bool
  initAttempts :: nat
  last_href :: string
  statusText :: "status option"
  styles :: "nat \<rightharpoonup> el_style"
  store :: storage
  inflight :: "persisted option list"
  timers :: nat

subsection \<open>The transform engine (lines 151--169)\<close>

definition applyTransform :: "page \<Rightarrow> page" where
  "applyTransform s =
     (case currentTarget s of
        None \<Rightarrow> s
      | Some t \<Rightarrow>
          s\<lparr>styles := (styles s)(el_id t \<mapsto>
              \<lparr>gdr_rot_target = True,
               rotate_deg = angle s,
               mirrored = flipX s,
               objectFit =
                 (if tagName t = ''VIDEO'' then Some ''contain''
                  else (case styles s (el_id t) of None \<Rightarrow> None | Some old \<Rightarrow> objectFit old)),
               maxWidth = ''100%'',
               maxHeight = ''100%''\<rparr>)\<rparr>)"

definition setTarget :: "element option \<Rightarrow> page \<Rightarrow> page" where
  "setTarget el s =
     (case el of
        None \<Rightarrow> s
      | Some e \<Rightarrow> applyTransform (s\<lparr>currentTarget := Some e\<rparr>))"

subsection \<open>The toolbar (lines 171--256)\<close>

definition updateToolbarStatus :: "status \<Rightarrow> page \<Rightarrow> page" where
  "updateToolbarStatus message s =
     (case statusText s of
        None \<Rightarrow> s
      | Some _ \<Rightarrow> s\<lparr>statusText := Some message\<rparr>)"

definition ensureToolbar :: "string \<Rightarrow> page \<Rightarrow> page" where
  "ensureToolbar url s =
     (case statusText s of
        Some _ \<Rightarrow> s
      | None \<Rightarrow>
          s\<lparr>statusText :=
              Some (if isDriveFilePreviewUrl url then LookingForMedia else NavigateToPreview)\<rparr>)"

text \<open>
  \<^verbatim>\<open>a % b\<close> on integers: the remainder has the sign of the dividend. (Only used
  with the divisor 360.)
\<close>

definition js_rem :: "int \<Rightarrow> int \<Rightarrow> int" where
  "js_rem a b = (if a < 0 then - ((- a) mod \<bar>b\<bar>) else a mod \<bar>b\<bar>)"

text \<open>
  The two angle updates, written out twice in the script (lines 214 and 242, lines 215
  and 239): \<^verbatim>\<open>(angle - 90 + 360) % 360\<close> and \<^verbatim>\<open>(angle + 90) % 360\<close>.
\<close>

definition rotateLeft :: "int \<Rightarrow> int" where
  "rotateLeft a = js_rem (a - 90 + 360) 360"

definition rotateRight :: "int \<Rightarrow> int" where
  "rotateRight a = js_rem (a + 90) 360"

text \<open>
  The end of both handlers: \<^verbatim>\<open>applyTransform(); saveState(currentFileId, {angle,
  flipX});\<close>. The promise \<^verbatim>\<open>saveState\<close> leaves behind is dropped, as in the script.
\<close>

definition applyAndSave :: "bool \<Rightarrow> page \<Rightarrow> page" where
  "applyAndSave ok s =
     (let s' = applyTransform s
      in s'\<lparr>store := snd (saveState (currentFileId s')
                            \<lparr>p_angle = Some (angle s'), p_flipX = Some (flipX s')\<rparr> ok (store s'))\<rparr>)"

text \<open>
  The click listener (lines 210--223). \<open>btn\<close> is the \<^verbatim>\<open>data-action\<close> of the button
  the click landed in, \<open>None\<close> when it landed in none.
\<close>

definition clickHandler :: "string option \<Rightarrow> bool \<Rightarrow> page \<Rightarrow> page" where
  "clickHandler btn ok s =
     (case btn of
        None \<Rightarrow> s
      | Some action \<Rightarrow>
          let s1 = (if action = ''left'' then s\<lparr>angle := rotateLeft (angle s)\<rparr> else s);
              s2 = (if action = ''right'' then s1\<lparr>angle := rotateRight (angle s1)\<rparr> else s1);
              s3 = (if action = ''flip'' then s2\<lparr>flipX := \<not> flipX s2\<rparr> else s2);
              s4 = (if action = ''reset'' then s3\<lparr>angle := 0, flipX := False\<rparr> else s3)
          in applyAndSave ok s4)"

text \<open>\<^verbatim>\<open>String.prototype.toLowerCase\<close>, on ASCII.\<close>

definition lower_char :: "char \<Rightarrow> char" where
  "lower_char c =
     (case map_of (zip ''ABCDEFGHIJKLMNOPQRSTUVWXYZ'' ''abcdefghijklmnopqrstuvwxyz'') c of
        None \<Rightarrow> c
      | Some d \<Rightarrow> d)"

definition toLowerCase :: "string \<Rightarrow> string" where
  "toLowerCase str = map lower_char str"

text \<open>
  A key press as the listener reads it: whether the focused element is an input, a
  text area or editable content, whether Shift is held, and the key.
\<close>

record key_event =
  typing :: bool
  shiftKey :: bool
  key :: string

text \<open>
  The keydown listener (lines 226--255). \<^verbatim>\<open>preventDefault\<close> acts on the event alone
  and is left out.
\<close>

definition keydownHandler :: "key_event \<Rightarrow> bool \<Rightarrow> page \<Rightarrow> page" where
  "keydownHandler e ok s =
     (if typing e then s
      else if \<not> shiftKey e then s
      else if toLowerCase (key e) = ''r'' then applyAndSave ok (s\<lparr>angle := rotateRight (angle s)\<rparr>)
      else if toLowerCase (key e) = ''l'' then applyAndSave ok (s\<lparr>angle := rotateLeft (angle s)\<rparr>)
      else if key e = ''0'' then applyAndSave ok (s\<lparr>angle := 0, flipX := False\<rparr>)
      else if toLowerCase (key e) = ''f'' then applyAndSave ok (s\<lparr>flipX := \<not> flipX s\<rparr>)
      else s)"

subsection \<open>Loading the saved orientation (lines 258--277)\<close>

text \<open>
  \<^verbatim>\<open>loadRotationState\<close> up to its \<^verbatim>\<open>await\<close>: without a file id it returns at
  once; otherwise it issues the storage read, whose answer is fixed by the storage at
  that moment.
\<close>

definition loadRotationState :: "page \<Rightarrow> page" where
  "loadRotationState s =
     (if \<not> truthy_str (currentFileId s) then s
      else s\<lparr>inflight := inflight s @ [loadState (currentFileId s) (store s)]\<rparr>)"

text \<open>
  \<^verbatim>\<open>loadRotationState\<close> after its \<^verbatim>\<open>await\<close>, with the value the read delivered:
  \<^verbatim>\<open>angle = saved?.angle ?? 0; flipX = saved?.flipX ?? false;\<close> and the transform
  when there is a target.
\<close>

definition loadRotationState_resume :: "persisted option \<Rightarrow> page \<Rightarrow> page" where
  "loadRotationState_resume saved s =
     (let s' = s\<lparr>angle := (case saved of None \<Rightarrow> 0
                              | Some r \<Rightarrow> (case p_angle r of None \<Rightarrow> 0 | Some a \<Rightarrow> a)),
                  flipX := (case saved of None \<Rightarrow> False
                              | Some r \<Rightarrow> (case p_flipX r of None \<Rightarrow> False | Some f \<Rightarrow> f))\<rparr>
      in (case currentTarget s' of None \<Rightarrow> s' | Some _ \<Rightarrow> applyTransform s'))"

definition teardown :: "page \<Rightarrow> page" where
  "teardown s = s\<lparr>currentTarget := None\<rparr>"

subsection \<open>The navigation watcher (lines 279--302)\<close>

text \<open>\<^verbatim>\<open>getFileIdFromUrl() || "general"\<close>.\<close>

definition fileIdOrGeneral :: "string \<Rightarrow> string" where
  "fileIdOrGeneral url =
     (case getFileIdFromUrl url of
        None \<Rightarrow> ''general''
      | Some m \<Rightarrow> if m = [] then ''general'' else m)"

text \<open>One run of \<^verbatim>\<open>tick\<close>, with the address the page has at that frame.\<close>

definition tick :: "string \<Rightarrow> page \<Rightarrow> page" where
  "tick now s =
     (if now \<noteq> last_href s then
        let s1 = s\<lparr>last_href := now\<rparr>;
            newFileId = fileIdOrGeneral now;
            s2 = (if Some newFileId \<noteq> currentFileId s1
                  then loadRotationState (s1\<lparr>currentFileId := Some newFileId\<rparr>)
                  else s1)
        in s2\<lparr>initAttempts := 0\<rparr>
      else s)"

subsection \<open>The lifecycle (lines 304--374)\<close>

text \<open>
  The function handed to \<^verbatim>\<open>debounce\<close> (lines 316--333): one locate attempt against
  the page as it is when the attempt runs.
\<close>

definition assignTarget :: "document \<Rightarrow> page \<Rightarrow> page" where
  "assignTarget doc s =
     (let s1 = s\<lparr>initAttempts := initAttempts s + 1\<rparr>
      in (case findLargestMediaElement doc of
            Some el \<Rightarrow>
              if (case currentTarget s1 of None \<Rightarrow> True | Some t \<Rightarrow> el_id el \<noteq> el_id t)
              then updateToolbarStatus MediaFound (setTarget (Some el) s1)
              else s1
          | None \<Rightarrow>
              if initAttempts s1 \<le> 3
              then (updateToolbarStatus (Searching (initAttempts s1)) s1)\<lparr>timers := Suc (timers s1)\<rparr>
              else updateToolbarStatus NoMediaFound s1))"

text \<open>The globals when the script has been read, on a page at address \<open>url\<close>.\<close>

definition script_start :: "string \<Rightarrow> storage \<Rightarrow> page" where
  "script_start url st =
     \<lparr>currentFileId = None, currentTarget = None, angle = 0, flipX = False,
      initAttempts = 0, last_href = url, statusText = None, styles = Map.empty,
      store = st, inflight = [], timers = 0\<rparr>"

text \<open>
  \<^verbatim>\<open>initOnDrive\<close> up to its \<^verbatim>\<open>await\<close>: the file id, the toolbar, the read of the
  saved orientation. What follows the \<^verbatim>\<open>await\<close> (the first locate attempt, the
  observers) is the events below.
\<close>

definition initOnDrive :: "string \<Rightarrow> page \<Rightarrow> page" where
  "initOnDrive url s =
     loadRotationState (ensureToolbar url (s\<lparr>currentFileId := Some (fileIdOrGeneral url)\<rparr>))"

definition init :: "string \<Rightarrow> page \<Rightarrow> page" where
  "init url s = (if isDriveUrl url then initOnDrive url s else s)"

subsection \<open>Events\<close>

text \<open>
  What can happen to a page: a click in the toolbar (with the button's action and
  whether the storage accepts the write), a key press (likewise), an animation frame
  of the watcher (with the address), the answer to the oldest pending storage read, a
  locate attempt set off by a mutation, a resize or the first call (with the page as
  it is then; the debounce makes one attempt of a burst of calls), a pending retry
  timer firing together with the attempt it sets off, and \<^verbatim>\<open>teardown\<close>. The
  listeners are taken to be in place throughout, which allows more runs than the
  script has.
\<close>

datatype event =
    Click "string option" bool
  | Keydown key_event bool
  | Frame string
  | StorageReply
  | Trigger document
  | TimerFires document
  | Teardown

fun step :: "event \<Rightarrow> page \<Rightarrow> page" where
  "step (Click btn ok) s = clickHandler btn ok s"
| "step (Keydown e ok) s = keydownHandler e ok s"
| "step (Frame now) s = tick now s"
| "step StorageReply s =
     (case inflight s of
        [] \<Rightarrow> s
      | saved # rest \<Rightarrow> loadRotationState_resume saved (s\<lparr>inflight := rest\<rparr>))"
| "step (Trigger doc) s = assignTarget doc s"
| "step (TimerFires doc) s =
     (if timers s = 0 then s else assignTarget doc (s\<lparr>timers := timers s - 1\<rparr>))"
| "step Teardown s = teardown s"

definition run :: "event list \<Rightarrow> page \<Rightarrow> page" where
  "run evs s = fold step evs s"

text \<open>
  The timer-driven part of the locate cycle on a page that stays as it is: as long as
  a retry timer is pending, it fires and the attempt it sets off runs. Every attempt
  raises \<^verbatim>\<open>initAttempts\<close>, and an attempt sets a new timer only while the counter is
  at most 3, so the loop ends.
\<close>

function retry_loop :: "document \<Rightarrow> page \<Rightarrow> page" where
  "retry_loop doc s =
     (if timers s = 0 then s else retry_loop doc (step (TimerFires doc) s))"
  by pat_completeness auto
termination
  by (relation "measure (\<lambda>(doc, s). (4 - initAttempts s) + timers s)")
     (auto simp: assignTarget_def updateToolbarStatus_def setTarget_def applyTransform_def
        Let_def split: option.splits)

declare retry_loop.simps [simp del]

subsection \<open>Specification predicates and example pages\<close>

text \<open>
  \<open>first_largest xs e\<close>: \<open>e\<close> stands in \<open>xs\<close> at a position where no element of
  \<open>xs\<close> has a larger area and every earlier element has a strictly smaller one.
\<close>

definition first_largest :: "element list \<Rightarrow> element \<Rightarrow> bool" where
  "first_largest xs e =
     (\<exists>i < length xs. xs ! i = e \<and> (\<forall>c \<in> set xs. area c \<le> area e)
        \<and> (\<forall>j < i. area (xs ! j) < area e))"

text \<open>
  A visible image in normal flow, with the given identity, rendered box and intrinsic
  size.
\<close>

definition image :: "nat \<Rightarrow> rat \<Rightarrow> rat \<Rightarrow> nat \<Rightarrow> nat \<Rightarrow> element" where
  "image i w h nw nh =
     \<lparr>el_id = i, tagName = ''IMG'', rect_width = w, rect_height = h,
      display = ''block'', visibility = ''visible'', position = ''static'',
      offsetParent = True, naturalWidth = Some nw, naturalHeight = Some nh,
      videoWidth = None, videoHeight = None,
      src = Some ''https://lh3.googleusercontent.com/d/abc''\<rparr>"

text \<open>
  A page whose only media are the given images, none of them inside a preview
  container, a main region or an image role: with the \<^verbatim>\<open>src\<close> of \<open>image\<close>, the
  selectors that match them are \<^verbatim>\<open>img[src*="googleusercontent.com"]\<close> and \<^verbatim>\<open>img\<close>.
\<close>

definition plain_page :: "element list \<Rightarrow> document" where
  \<open>plain_page imgs sel =
     (if sel = ''img[src*="googleusercontent.com"]'' \<or> sel = ''img'' then imgs else [])\<close>

text \<open>
  A page whose preview container holds one image that is too small to keep, while a
  full-size image stands elsewhere in the page: the first selector matches the small
  image only, the two generic selectors match both.
\<close>

definition fallback_doc :: document where
  \<open>fallback_doc sel =
     (if sel = ''[data-testid="preview-image"] img'' then [image 1 20 20 20 20]
      else plain_page [image 1 20 20 20 20, image 2 800 600 1600 1200] sel)\<close>

text \<open>An image that has not loaded (intrinsic size \<open>0 \<times> 0\<close>) laid out at \<open>100 \<times> 100\<close>.\<close>

definition unloaded_doc :: document where
  "unloaded_doc = plain_page [image 7 100 100 0 0]"

text \<open>Two images of equal area, \<open>100 \<times> 100\<close> before \<open>200 \<times> 50\<close>.\<close>

definition tie_doc :: document where
  "tie_doc = plain_page [image 1 100 100 100 100, image 2 200 50 200 50]"

text \<open>A small image followed by a large one.\<close>

definition later_doc :: document where
  "later_doc = plain_page [image 1 60 60 60 60, image 2 800 600 800 600]"

text \<open>
  Two images whose exact areas differ by \<open>1 / 2 ^ 52\<close>, the larger one second: a box
  of \<open>100\<close> by \<open>100 + 1 / 2 ^ 25\<close> and a square of side \<open>100 + 1 / 2 ^ 26\<close>. All
  four measures are doubles.
\<close>

definition rounding_doc :: document where
  "rounding_doc =
     plain_page [image 1 100 (100 + 1 / 2 ^ 25) 100 100,
                 image 2 (100 + 1 / 2 ^ 26) (100 + 1 / 2 ^ 26) 100 100]"

text \<open>A page on which no selector matches anything.\<close>

definition empty_doc :: document where
  "empty_doc sel = []"

text \<open>
  The angles of the data model, a stored record whose angle (when it has one) is one of
  them, a storage area holding only such records, and a page whose angle is one of
  them and whose storage and pending reads hold only such records.
\<close>

definition valid_angle :: "int \<Rightarrow> bool" where
  "valid_angle a = (a \<in> {0, 90, 180, 270})"

definition record_ok :: "persisted \<Rightarrow> bool" where
  "record_ok r = (case p_angle r of None \<Rightarrow> True | Some a \<Rightarrow> valid_angle a)"

definition storage_ok :: "storage \<Rightarrow> bool" where
  "storage_ok st = (\<forall>k r. st k = Some r \<longrightarrow> record_ok r)"

definition page_ok :: "page \<Rightarrow> bool" where
  "page_ok s =
     (valid_angle (angle s) \<and> storage_ok (store s)
      \<and> (\<forall>r. Some r \<in> set (inflight s) \<longrightarrow> record_ok r))"

text \<open>
  A sequence of calls of \<^verbatim>\<open>saveState\<close> (file id, state, whether the write is
  accepted) and, in the words of the contract, the state last saved for a file id: that
  of the latest accepted call for it.
\<close>

type_synonym save_request = "string option \<times> persisted \<times> bool"

definition save_all :: "save_request list \<Rightarrow> storage \<Rightarrow> storage" where
  "save_all reqs st =
     fold (\<lambda>(fileId, state, ok) st'. snd (saveState fileId state ok st')) reqs st"

fun last_saved :: "string \<Rightarrow> save_request list \<Rightarrow> persisted option" where
  "last_saved fid [] = None"
| "last_saved fid ((fileId, state, ok) # rest) =
     (case last_saved fid rest of
        Some later \<Rightarrow> Some later
      | None \<Rightarrow> if fileId = Some fid \<and> ok then Some state else None)"

text \<open>Shift held with a key, focus outside any text input.\<close>

definition shift_key :: "string \<Rightarrow> key_event" where
  "shift_key k = \<lparr>typing = False, shiftKey = True, key = k\<rparr>"

text \<open>A click on the rotate-right button whose write the storage accepts.\<close>

definition click_right :: event where
  "click_right = Click (Some ''right'') True"

definition url_f1 :: string where
  "url_f1 = ''https://drive.google.com/file/d/f1/view''"

definition url_f2 :: string where
  "url_f2 = ''https://drive.google.com/file/d/f2/view''"

text \<open>
  The page once the script has started on the preview of file \<open>f1\<close> and the read of
  the saved orientation has been answered.
\<close>

definition on_f1 :: "storage \<Rightarrow> page" where
  "on_f1 st = run [StorageReply] (init url_f1 (script_start url_f1 st))"

text \<open>
  A page at rest on a file: no target yet, not mirrored, no read pending, no timer.
\<close>

definition on_file :: "string \<Rightarrow> string \<Rightarrow> int \<Rightarrow> storage \<Rightarrow> page" where
  "on_file url fid a st =
     \<lparr>currentFileId = Some fid, currentTarget = None, angle = a, flipX = False,
      initAttempts = 0, last_href = url, statusText = Some LookingForMedia, styles = Map.empty,
      store = st, inflight = [], timers = 0\<rparr>"

text \<open>The record the script saves for an unmirrored angle.\<close>

definition saved_as :: "int \<Rightarrow> persisted" where
  "saved_as a = \<lparr>p_angle = Some a, p_flipX = Some False\<rparr>"

text \<open>A page at rest on file \<open>f1\<close>, turned by 90, with an image bound as its target.\<close>

definition with_target :: page where
  "with_target = setTarget (Some (image 1 100 100 100 100)) (on_file url_f1 ''f1'' 90 Map.empty)"

section \<open>Properties\<close>

subsection \<open>The locator\<close>

lemma insert_by_not_Nil: "insert_by cmp x ys \<noteq> []"
  by (cases ys) auto

lemma array_sort_Cons: "array_sort cmp (x # xs) = insert_by cmp x (array_sort cmp xs)"
  by (simp add: array_sort_def)

lemma array_sort_Nil_iff: "array_sort cmp xs = [] \<longleftrightarrow> xs = []"
  by (cases xs) (auto simp: array_sort_def insert_by_not_Nil)

lemma by_size_le: "by_size a b \<le> 0 \<longleftrightarrow> area b \<le> area a"
  unfolding by_size_def by simp

lemma first_largest_head:
  assumes "area y \<le> area x" and "\<forall>c \<in> set xs. area c \<le> area y"
  shows "first_largest (x # xs) x"
  unfolding first_largest_def
proof (intro exI[of _ 0] conjI)
  show "\<forall>c \<in> set (x # xs). area c \<le> area x"
    using assms by auto
qed simp_all

lemma first_largest_single: "first_largest [x] x"
  unfolding first_largest_def by (intro exI[of _ 0]) simp

lemma first_largest_tail:
  assumes "area x < area y" and "first_largest xs y"
  shows "first_largest (x # xs) y"
proof -
  from assms(2) obtain i where i: "i < length xs" "xs ! i = y"
    "\<forall>c \<in> set xs. area c \<le> area y" "\<forall>j < i. area (xs ! j) < area y"
    unfolding first_largest_def by blast
  have "\<forall>j < Suc i. area ((x # xs) ! j) < area y"
  proof (intro allI impI)
    fix j assume "j < Suc i"
    then show "area ((x # xs) ! j) < area y"
      using assms(1) i(4) by (cases j) auto
  qed
  moreover have "\<forall>c \<in> set (x # xs). area c \<le> area y"
    using assms(1) i(3) by auto
  ultimately show ?thesis
    unfolding first_largest_def using i(1,2) by (intro exI[of _ "Suc i"]) simp
qed

text \<open>The head of the sorted candidates is the first candidate of largest area.\<close>

lemma array_sort_head:
  "array_sort by_size xs = e # rest \<Longrightarrow> first_largest xs e"
proof (induction xs arbitrary: e rest)
  case Nil
  then show ?case by (simp add: array_sort_def)
next
  case (Cons x xs)
  show ?case
  proof (cases "array_sort by_size xs")
    case Nil
    then have "xs = []" by (simp add: array_sort_Nil_iff)
    with Cons.prems show ?thesis
      by (simp add: array_sort_def first_largest_single)
  next
    case (Cons y ys)
    then have fl: "first_largest xs y" by (rule Cons.IH)
    show ?thesis
    proof (cases "area y \<le> area x")
      case True
      with Cons Cons.prems have "e = x"
        by (simp add: array_sort_Cons by_size_le)
      moreover from fl have "\<forall>c \<in> set xs. area c \<le> area y"
        unfolding first_largest_def by blast
      ultimately show ?thesis using True first_largest_head by blast
    next
      case False
      with Cons Cons.prems have "e = y"
        by (simp add: array_sort_Cons by_size_le)
      with False fl show ?thesis by (simp add: first_largest_tail)
    qed
  qed
qed

lemma collect_Nil_iff:
  "collect doc sels = [] \<longleftrightarrow> (\<forall>sel \<in> set sels. filter keep (doc sel) = [])"
  by (induction sels) (auto simp: Let_def)

lemma collect_first:
  "collect doc sels \<noteq> [] \<Longrightarrow>
   \<exists>i < length sels. collect doc sels = filter keep (doc (sels ! i))
      \<and> (\<forall>j < i. filter keep (doc (sels ! j)) = [])"
proof (induction sels)
  case Nil
  then show ?case by simp
next
  case (Cons sel sels)
  show ?case
  proof (cases "filter keep (doc sel) = []")
    case True
    with Cons.prems have "collect doc sels \<noteq> []" by simp
    then obtain i where i: "i < length sels" "collect doc sels = filter keep (doc (sels ! i))"
      "\<forall>j < i. filter keep (doc (sels ! j)) = []"
      using Cons.IH by blast
    have "\<forall>j < Suc i. filter keep (doc ((sel # sels) ! j)) = []"
    proof (intro allI impI)
      fix j assume "j < Suc i"
      then show "filter keep (doc ((sel # sels) ! j)) = []"
        using True i(3) by (cases j) auto
    qed
    with True i(1,2) show ?thesis
      by (intro exI[of _ "Suc i"]) simp
  next
    case False
    then show ?thesis by (intro exI[of _ 0]) (simp add: Let_def)
  qed
qed

lemma find_None_iff: "findLargestMediaElement doc = None \<longleftrightarrow> collect doc selectors = []"
  by (auto simp: findLargestMediaElement_def Let_def array_sort_Nil_iff split: list.splits)

lemma find_Some_first_largest:
  "findLargestMediaElement doc = Some e \<Longrightarrow> first_largest (collect doc selectors) e"
  by (auto simp: findLargestMediaElement_def Let_def split: if_splits list.splits
           dest: array_sort_head)

lemmas locator_defs =
  findLargestMediaElement_def selectors_def keep_def size_w_def size_h_def num_or_def
  looks_like_icon_def array_sort_def by_size_def area_def image_def plain_page_def Let_def

text \<open>
  Claim C1, as the script behaves. A search pass consults the selectors in their fixed
  order and commits to the first one whose matches survive the filter: the candidates
  are exactly the surviving matches of that selector, every earlier selector has no
  surviving match, and the search fails exactly when no selector has a surviving
  match. A selector whose matches are all filtered out does not end the pass.
\<close>

theorem first_successful_selector:
  "(findLargestMediaElement doc = None \<longleftrightarrow> (\<forall>sel \<in> set selectors. filter keep (doc sel) = []))
   \<and> (\<forall>e. findLargestMediaElement doc = Some e \<longrightarrow>
         (\<exists>i < length selectors.
            e \<in> set (filter keep (doc (selectors ! i)))
            \<and> collect doc selectors = filter keep (doc (selectors ! i))
            \<and> (\<forall>j < i. filter keep (doc (selectors ! j)) = [])))"
proof (intro conjI allI impI)
  show "findLargestMediaElement doc = None \<longleftrightarrow> (\<forall>sel \<in> set selectors. filter keep (doc sel) = [])"
    by (simp add: find_None_iff collect_Nil_iff)
next
  fix e assume found: "findLargestMediaElement doc = Some e"
  then have fl: "first_largest (collect doc selectors) e"
    by (rule find_Some_first_largest)
  then have mem: "e \<in> set (collect doc selectors)"
    unfolding first_largest_def by (auto simp: in_set_conv_nth)
  then have "collect doc selectors \<noteq> []" by auto
  then obtain i where "i < length selectors"
    "collect doc selectors = filter keep (doc (selectors ! i))"
    "\<forall>j < i. filter keep (doc (selectors ! j)) = []"
    using collect_first by blast
  with mem show "\<exists>i < length selectors.
            e \<in> set (filter keep (doc (selectors ! i)))
            \<and> collect doc selectors = filter keep (doc (selectors ! i))
            \<and> (\<forall>j < i. filter keep (doc (selectors ! j)) = [])"
    by metis
qed

theorem first_successful_selector_witness:
  "findLargestMediaElement fallback_doc = Some (image 2 800 600 1600 1200)
   \<and> (\<exists>i < length selectors.
         image 2 800 600 1600 1200 \<in> set (filter keep (fallback_doc (selectors ! i)))
         \<and> collect fallback_doc selectors = filter keep (fallback_doc (selectors ! i))
         \<and> (\<forall>j < i. filter keep (fallback_doc (selectors ! j)) = []))"
proof -
  have found: "findLargestMediaElement fallback_doc = Some (image 2 800 600 1600 1200)"
    by (simp add: locator_defs fallback_doc_def)
  with first_successful_selector [of fallback_doc] show ?thesis by blast
qed

text \<open>
  Claim C1 as stated fails: on \<open>fallback_doc\<close> the first selector yields one element,
  the filter removes it, and the search goes on to return an element of a later
  selector (one the first selector did not yield) instead of "not found".
\<close>

theorem later_selector_counterexample:
  "fallback_doc (selectors ! 0) = [image 1 20 20 20 20]
   \<and> filter keep (fallback_doc (selectors ! 0)) = []
   \<and> findLargestMediaElement fallback_doc = Some (image 2 800 600 1600 1200)
   \<and> image 2 800 600 1600 1200 \<notin> set (fallback_doc (selectors ! 0))"
  by (simp add: locator_defs fallback_doc_def)

lemma num_or_small: "0 < n \<Longrightarrow> n < 50 \<Longrightarrow> num_or (Some n) b < 50"
  by (simp add: num_or_def)

lemma num_or_falsy: "v \<in> {None, Some 0} \<Longrightarrow> num_or v b = b"
  by (auto simp: num_or_def)

text \<open>
  Claim C2, as the script behaves. An element whose intrinsic width or height (the
  natural one, or the video one when the natural one is missing or \<open>0\<close>) is a nonzero
  number below 50 is rejected whatever its rendered box. When the intrinsic sizes are
  all missing or \<open>0\<close>, the rendered width and height take their place: the element is
  kept exactly when its rendered box is at least \<open>50 \<times> 50\<close> and the visibility and
  icon checks pass.
\<close>

theorem small_intrinsic_size_rejected:
  "((naturalWidth el = Some n \<or> naturalHeight el = Some n
       \<or> (naturalWidth el \<in> {None, Some 0} \<and> videoWidth el = Some n)
       \<or> (naturalHeight el \<in> {None, Some 0} \<and> videoHeight el = Some n))
      \<and> 0 < n \<and> n < 50 \<longrightarrow> \<not> keep el)
   \<and> (naturalWidth el \<in> {None, Some 0} \<and> videoWidth el \<in> {None, Some 0}
      \<and> naturalHeight el \<in> {None, Some 0} \<and> videoHeight el \<in> {None, Some 0} \<longrightarrow>
        keep el =
          (50 \<le> rect_width el \<and> 50 \<le> rect_height el
           \<and> display el \<noteq> ''none'' \<and> visibility el \<noteq> ''hidden''
           \<and> (offsetParent el \<or> position el = ''fixed'' \<or> position el = ''absolute'')
           \<and> \<not> looks_like_icon (src el)))"
proof (intro conjI impI)
  assume a: "(naturalWidth el = Some n \<or> naturalHeight el = Some n
       \<or> (naturalWidth el \<in> {None, Some 0} \<and> videoWidth el = Some n)
       \<or> (naturalHeight el \<in> {None, Some 0} \<and> videoHeight el = Some n))
      \<and> 0 < n \<and> n < 50"
  then have n: "0 < n" "n < 50" by simp_all
  from a have "size_w el < 50 \<or> size_h el < 50"
    unfolding size_w_def size_h_def
    using num_or_small [OF n] num_or_falsy by (elim conjE disjE) auto
  then show "\<not> keep el"
    by (auto simp: keep_def)
next
  assume "naturalWidth el \<in> {None, Some 0} \<and> videoWidth el \<in> {None, Some 0}
      \<and> naturalHeight el \<in> {None, Some 0} \<and> videoHeight el \<in> {None, Some 0}"
  then have "size_w el = rect_width el" "size_h el = rect_height el"
    unfolding size_w_def size_h_def by (simp_all add: num_or_falsy)
  then show "keep el =
          (50 \<le> rect_width el \<and> 50 \<le> rect_height el
           \<and> display el \<noteq> ''none'' \<and> visibility el \<noteq> ''hidden''
           \<and> (offsetParent el \<or> position el = ''fixed'' \<or> position el = ''absolute'')
           \<and> \<not> looks_like_icon (src el))"
    by (auto simp: keep_def)
qed

theorem small_intrinsic_size_rejected_witness:
  "naturalWidth (image 3 400 300 40 30) = Some 40 \<and> (0::nat) < 40 \<and> (40::nat) < 50
   \<and> 30 \<le> rect_width (image 3 400 300 40 30) \<and> 30 \<le> rect_height (image 3 400 300 40 30)
   \<and> \<not> keep (image 3 400 300 40 30)
   \<and> naturalWidth (image 7 100 100 0 0) \<in> {None, Some 0}
   \<and> keep (image 7 100 100 0 0)"
proof -
  have "\<not> keep (image 3 400 300 40 30)"
    using small_intrinsic_size_rejected [of "image 3 400 300 40 30" 40]
    by (simp add: image_def)
  moreover have "keep (image 7 100 100 0 0)"
    using small_intrinsic_size_rejected [of "image 7 100 100 0 0" 0]
    by (simp add: image_def looks_like_icon_def)
  ultimately show ?thesis by (simp add: image_def)
qed

text \<open>
  Claim C2 as stated fails where the intrinsic size reports \<open>0\<close>: an image with
  natural size \<open>0 \<times> 0\<close> and a rendered box of \<open>100 \<times> 100\<close> passes the filter and is
  returned by the locator.
\<close>

theorem zero_intrinsic_size_counterexample:
  "naturalWidth (image 7 100 100 0 0) = Some 0
   \<and> naturalHeight (image 7 100 100 0 0) = Some 0
   \<and> keep (image 7 100 100 0 0)
   \<and> findLargestMediaElement unloaded_doc = Some (image 7 100 100 0 0)"
  by (simp add: locator_defs unloaded_doc_def)

subsection \<open>Rounding to a double\<close>

lemma round_half_even_of_int: "round_half_even (of_int n) = n"
  by (simp add: round_half_even_def)

lemma round_half_even_ge_floor: "\<lfloor>x\<rfloor> \<le> round_half_even x"
  by (simp add: round_half_even_def Let_def)

lemma round_half_even_le_floor1: "round_half_even x \<le> \<lfloor>x\<rfloor> + 1"
  by (simp add: round_half_even_def Let_def)

lemma round_half_even_mono: "x \<le> y \<Longrightarrow> round_half_even x \<le> round_half_even y"
proof -
  assume xy: "x \<le> y"
  then have fl: "\<lfloor>x\<rfloor> \<le> \<lfloor>y\<rfloor>" by (rule floor_mono)
  show ?thesis
  proof (cases "\<lfloor>x\<rfloor> = \<lfloor>y\<rfloor>")
    case True
    with xy have "x - of_int \<lfloor>x\<rfloor> \<le> y - of_int \<lfloor>y\<rfloor>" by simp
    with True show ?thesis
      by (auto simp: round_half_even_def Let_def)
  next
    case False
    with fl have "\<lfloor>x\<rfloor> + 1 \<le> \<lfloor>y\<rfloor>" by simp
    with round_half_even_le_floor1 [of x] round_half_even_ge_floor [of y]
    show ?thesis by linarith
  qed
qed

lemma round_half_even_le: "x \<le> of_int n \<Longrightarrow> round_half_even x \<le> n"
  using round_half_even_mono [of x "of_int n"] by (simp add: round_half_even_of_int)

lemma round_half_even_ge: "of_int n \<le> x \<Longrightarrow> n \<le> round_half_even x"
  using round_half_even_mono [of "of_int n" x] by (simp add: round_half_even_of_int)

lemma two_powi_pos: "0 < (2::rat) powi e"
  by (simp add: zero_less_power_int)

lemma two_powi_div: "(2::rat) powi a / 2 powi b = 2 powi (a - b)"
  by (simp add: power_int_diff)

lemma of_int_bitlen_bounds:
  assumes "0 < p"
  shows "(2::rat) powi (bitlen p - 1) \<le> of_int p" and "of_int p < (2::rat) powi (bitlen p)"
proof -
  from assms have b: "2 ^ nat (bitlen p - 1) \<le> p" "p < 2 ^ nat (bitlen p)"
    using bitlen_bounds by auto
  from assms have ge: "1 \<le> bitlen p"
    using bitlen_eq_zero_iff [of p] bitlen_nonneg [of p] by linarith
  have "(2::rat) powi (bitlen p - 1) = of_int (2 ^ nat (bitlen p - 1))"
    using ge by (simp add: power_int_def)
  also have "\<dots> \<le> of_int p"
    using b(1) by (simp only: of_int_le_iff)
  finally show "(2::rat) powi (bitlen p - 1) \<le> of_int p" .
  have "of_int p < (of_int (2 ^ nat (bitlen p)) :: rat)"
    using b(2) by (simp only: of_int_less_iff)
  also have "\<dots> = (2::rat) powi (bitlen p)"
    using ge by (simp add: power_int_def)
  finally show "of_int p < (2::rat) powi (bitlen p)" .
qed

lemma floor_log2_bounds:
  assumes "0 < x"
  shows "2 powi (floor_log2 x) \<le> x" and "x < 2 powi (floor_log2 x + 1)"
proof -
  obtain p q where pq: "quotient_of x = (p, q)" by (cases "quotient_of x") auto
  then have q: "0 < q" and x: "x = of_int p / of_int q"
    by (auto dest: quotient_of_denom_pos quotient_of_div)
  with assms have p: "0 < p"
    by (simp add: zero_less_divide_iff)
  let ?d = "bitlen p - bitlen q"
  have qpos: "0 < (of_int q :: rat)" using q by simp
  have "x < 2 powi (bitlen p) / of_int q"
    unfolding x using of_int_bitlen_bounds(2) [OF p] qpos by (simp add: divide_strict_right_mono)
  also have "\<dots> \<le> 2 powi (bitlen p) / 2 powi (bitlen q - 1)"
    using of_int_bitlen_bounds(1) [OF q] two_powi_pos [of "bitlen q - 1"] two_powi_pos [of "bitlen p"]
    by (intro divide_left_mono) (auto intro: mult_pos_pos qpos)
  also have "\<dots> = 2 powi (bitlen p - (bitlen q - 1))"
    by (rule two_powi_div)
  also have "bitlen p - (bitlen q - 1) = ?d + 1"
    by simp
  finally have up: "x < 2 powi (?d + 1)" .
  have "?d - 1 = bitlen p - 1 - bitlen q"
    by simp
  then have "(2::rat) powi (?d - 1) = 2 powi (bitlen p - 1 - bitlen q)"
    by (rule arg_cong)
  also have "\<dots> = 2 powi (bitlen p - 1) / 2 powi (bitlen q)"
    by (rule two_powi_div [symmetric])
  also have "\<dots> \<le> of_int p / 2 powi (bitlen q)"
    using of_int_bitlen_bounds(1) [OF p] two_powi_pos [of "bitlen q"]
    by (simp add: divide_right_mono)
  also have "\<dots> \<le> of_int p / of_int q"
    using of_int_bitlen_bounds(2) [OF q] qpos p
    by (intro divide_left_mono) (auto intro: mult_pos_pos two_powi_pos)
  finally have low: "2 powi (?d - 1) \<le> x" by (simp add: x)
  have fl: "floor_log2 x = (if 2 powi ?d \<le> x then ?d else ?d - 1)"
    by (simp add: floor_log2_def pq Let_def)
  show "2 powi (floor_log2 x) \<le> x"
    using low by (simp add: fl)
  show "x < 2 powi (floor_log2 x + 1)"
    using up by (auto simp: fl)
qed

lemma floor_log2_eqI:
  assumes "2 powi e \<le> x" and "x < 2 powi (e + 1)"
  shows "floor_log2 x = e"
proof -
  have pos: "0 < x" using assms(1) two_powi_pos [of e] by linarith
  note b = floor_log2_bounds [OF pos]
  have "\<not> floor_log2 x < e"
  proof
    assume "floor_log2 x < e"
    then have "floor_log2 x + 1 \<le> e" by simp
    then have "(2::rat) powi (floor_log2 x + 1) \<le> 2 powi e"
      by (intro power_int_increasing) simp_all
    with b(2) assms(1) show False by linarith
  qed
  moreover have "\<not> e < floor_log2 x"
  proof
    assume "e < floor_log2 x"
    then have "e + 1 \<le> floor_log2 x" by simp
    then have "(2::rat) powi (e + 1) \<le> 2 powi (floor_log2 x)"
      by (intro power_int_increasing) simp_all
    with b(1) assms(2) show False by linarith
  qed
  ultimately show ?thesis by linarith
qed

lemma floor_log2_mono:
  assumes "0 < x" and "x \<le> y"
  shows "floor_log2 x \<le> floor_log2 y"
proof (rule ccontr)
  assume "\<not> floor_log2 x \<le> floor_log2 y"
  then have "floor_log2 y + 1 \<le> floor_log2 x" by simp
  then have "(2::rat) powi (floor_log2 y + 1) \<le> 2 powi (floor_log2 x)"
    by (intro power_int_increasing) simp_all
  moreover from assms have "0 < y" by simp
  ultimately show False
    using floor_log2_bounds(1) [OF assms(1)] floor_log2_bounds(2) [of y] assms(2) by linarith
qed

lemma ulp_pos: "0 < ulp x"
  by (simp add: ulp_def two_powi_pos)

lemma two_powi_mult: "(2::rat) powi a * 2 powi b = 2 powi (a + b)"
  by (simp add: power_int_add)

lemma to_double_pos:
  assumes "0 < x"
  shows "to_double x = min (of_int (round_half_even (x / ulp x)) * ulp x) (2 powi 1024)"
proof -
  have "0 \<le> x / ulp x" using assms ulp_pos [of x] by simp
  then have "0 \<le> round_half_even (x / ulp x)"
    using round_half_even_ge [of 0 "x / ulp x"] by simp
  then have "0 \<le> rat_of_int (round_half_even (x / ulp x)) * ulp x"
    using ulp_pos [of x] by simp
  then show ?thesis
    using assms by (simp add: to_double_def Let_def min_def)
qed

lemma nearest_mono:
  assumes "0 < x" and "x \<le> y"
  shows "of_int (round_half_even (x / ulp x)) * ulp x \<le> of_int (round_half_even (y / ulp y)) * ulp y"
proof -
  from assms have ypos: "0 < y" by simp
  define ex where "ex = max (floor_log2 x) (- 1022)"
  define ey where "ey = max (floor_log2 y) (- 1022)"
  have ux: "ulp x = 2 powi (ex - 52)" using assms(1) by (simp add: ulp_def ex_def)
  have uy: "ulp y = 2 powi (ey - 52)" using ypos by (simp add: ulp_def ey_def)
  have fx: "floor_log2 x \<le> ex" and mx: "- 1022 \<le> ex"
    by (simp_all add: ex_def)
  have le: "ex \<le> ey"
    unfolding ex_def ey_def using floor_log2_mono [OF assms] by (rule max.mono) simp
  show ?thesis
  proof (cases "ex = ey")
    case True
    then have same: "ulp x = ulp y" by (simp add: ux uy)
    have "x / ulp y \<le> y / ulp y"
      using assms(2) ulp_pos [of y] by (simp add: divide_right_mono)
    then have "round_half_even (x / ulp y) \<le> round_half_even (y / ulp y)"
      by (rule round_half_even_mono)
    then have "rat_of_int (round_half_even (x / ulp y)) \<le> rat_of_int (round_half_even (y / ulp y))"
      by simp
    then show ?thesis
      unfolding same using ulp_pos [of y] by (simp add: mult_right_mono)
  next
    case False
    with le have lt: "ex < ey" by linarith
    have ey: "ey = floor_log2 y"
    proof (rule ccontr)
      assume "ey \<noteq> floor_log2 y"
      then have "ey = - 1022" by (simp add: ey_def max_def split: if_splits)
      with mx lt show False by linarith
    qed
    \<comment> \<open>the rounded \<open>x\<close> does not pass the next power of two\<close>
    have "x < 2 powi (floor_log2 x + 1)"
      using floor_log2_bounds(2) [OF assms(1)] .
    also have "\<dots> \<le> 2 powi (ex + 1)"
      using fx by (intro power_int_increasing) simp_all
    finally have "x / ulp x \<le> 2 powi (ex + 1) / 2 powi (ex - 52)"
      unfolding ux using two_powi_pos [of "ex - 52"] by (simp add: divide_right_mono)
    also have "\<dots> = 2 powi (ex + 1 - (ex - 52))"
      by (rule two_powi_div)
    also have "ex + 1 - (ex - 52) = 53"
      by simp
    finally have "x / ulp x \<le> of_int (2 ^ 53)"
      by simp
    then have "round_half_even (x / ulp x) \<le> 2 ^ 53"
      by (rule round_half_even_le)
    then have "rat_of_int (round_half_even (x / ulp x)) \<le> rat_of_int (2 ^ 53)"
      by (simp only: of_int_le_iff)
    then have "rat_of_int (round_half_even (x / ulp x)) * ulp x \<le> rat_of_int (2 ^ 53) * ulp x"
      using ulp_pos [of x] by (simp add: mult_right_mono)
    also have "rat_of_int (2 ^ 53) * ulp x = 2 powi 53 * 2 powi (ex - 52)"
      by (simp add: ux)
    also have "\<dots> = 2 powi (53 + (ex - 52))"
      by (rule two_powi_mult)
    also have "53 + (ex - 52) = ex + 1"
      by simp
    also have "(2::rat) powi (ex + 1) \<le> 2 powi ey"
      using lt by (intro power_int_increasing) simp_all
    finally have left: "rat_of_int (round_half_even (x / ulp x)) * ulp x \<le> 2 powi ey" .
    \<comment> \<open>the rounded \<open>y\<close> does not fall below its own power of two\<close>
    have "ey - (ey - 52) = 52"
      by simp
    then have "(2::rat) powi 52 = 2 powi (ey - (ey - 52))"
      by (simp only:)
    also have "\<dots> = 2 powi ey / 2 powi (ey - 52)"
      by (rule two_powi_div [symmetric])
    also have "\<dots> \<le> y / ulp y"
      unfolding uy using floor_log2_bounds(1) [OF ypos] two_powi_pos [of "ey - 52"]
      by (simp add: divide_right_mono ey)
    finally have "of_int (2 ^ 52) \<le> y / ulp y"
      by simp
    then have "2 ^ 52 \<le> round_half_even (y / ulp y)"
      by (rule round_half_even_ge)
    then have "rat_of_int (2 ^ 52) \<le> rat_of_int (round_half_even (y / ulp y))"
      by (simp only: of_int_le_iff)
    then have "rat_of_int (2 ^ 52) * ulp y \<le> rat_of_int (round_half_even (y / ulp y)) * ulp y"
      using ulp_pos [of y] by (simp add: mult_right_mono)
    moreover have "rat_of_int (2 ^ 52) * ulp y = 2 powi 52 * 2 powi (ey - 52)"
      by (simp add: uy)
    moreover have "(2::rat) powi 52 * 2 powi (ey - 52) = 2 powi (52 + (ey - 52))"
      by (rule two_powi_mult)
    moreover have "52 + (ey - 52) = ey"
      by simp
    ultimately have right: "2 powi ey \<le> rat_of_int (round_half_even (y / ulp y)) * ulp y"
      by simp
    from left right show ?thesis by (rule order_trans)
  qed
qed

lemma to_double_mono:
  assumes "0 < x" and "x \<le> y"
  shows "to_double x \<le> to_double y"
proof -
  from assms have "0 < y" by simp
  with assms(1) nearest_mono [OF assms] show ?thesis
    by (simp add: to_double_pos min_le_iff_disj)
qed

lemma to_double_of_int:
  assumes "0 < n" and "n < 2 ^ 53"
  shows "to_double (of_int n) = of_int n"
proof -
  let ?x = "rat_of_int n"
  let ?e = "floor_log2 ?x"
  have pos: "0 < ?x" using assms(1) by simp
  have "(2::rat) powi 0 \<le> ?x" using assms(1) by simp
  then have "floor_log2 (2 powi 0) \<le> ?e"
    by (intro floor_log2_mono) (simp_all add: two_powi_pos)
  moreover have "floor_log2 ((2::rat) powi 0) = 0"
    by (rule floor_log2_eqI) simp_all
  ultimately have e0: "0 \<le> ?e" by simp
  have "(2::rat) powi ?e \<le> ?x" by (rule floor_log2_bounds(1) [OF pos])
  also have "?x < rat_of_int (2 ^ 53)" using assms(2) by (simp only: of_int_less_iff)
  finally have "(2::rat) powi ?e < 2 powi 53" by simp
  then have e53: "?e < 53"
    by (rule power_int_le_imp_less_exp [rotated]) simp_all
  have u: "ulp ?x = 2 powi (?e - 52)"
    using e0 assms(1) by (simp add: ulp_def)
  have "?x / ulp ?x = ?x * 2 powi (52 - ?e)"
    unfolding u using power_int_minus [of "2::rat" "?e - 52"] by (simp add: divide_inverse)
  also have "(2::rat) powi (52 - ?e) = rat_of_int (2 ^ nat (52 - ?e))"
    using e53 by (simp add: power_int_def)
  finally have "?x / ulp ?x = rat_of_int (n * 2 ^ nat (52 - ?e))"
    by simp
  then have "rat_of_int (round_half_even (?x / ulp ?x)) = ?x / ulp ?x"
    by (simp only: round_half_even_of_int)
  then have near: "rat_of_int (round_half_even (?x / ulp ?x)) * ulp ?x = ?x"
    using ulp_pos [of ?x] by simp
  have "?x < rat_of_int (2 ^ 53)" using assms(2) by (simp only: of_int_less_iff)
  also have "\<dots> \<le> 2 powi 1024" by simp
  finally have "?x < 2 powi 1024" .
  with pos near show ?thesis
    by (simp add: to_double_pos)
qed

lemma keep_box: "keep el \<Longrightarrow> 30 \<le> rect_width el \<and> 30 \<le> rect_height el"
  by (auto simp: keep_def split: if_splits)

lemma collect_keep: "c \<in> set (collect doc sels) \<Longrightarrow> keep c"
  by (induction sels) (auto simp: Let_def split: if_splits)

lemma kept_product_pos: "keep el \<Longrightarrow> 0 < rect_width el * rect_height el"
proof -
  assume "keep el"
  then have "30 \<le> rect_width el" "30 \<le> rect_height el"
    using keep_box by simp_all
  then have "0 < rect_width el" "0 < rect_height el" by simp_all
  then show ?thesis by (rule mult_pos_pos)
qed

subsection \<open>The largest candidate\<close>

lemma first_largest_products:
  assumes "first_largest xs e"
  shows "\<exists>i < length xs. xs ! i = e
           \<and> (\<forall>c \<in> set xs. to_double (rect_width c * rect_height c)
                               \<le> to_double (rect_width e * rect_height e))
           \<and> (\<forall>j < i. to_double (rect_width (xs ! j) * rect_height (xs ! j))
                          < to_double (rect_width e * rect_height e))"
  using assms unfolding first_largest_def area_def .

text \<open>
  Claim C3, as the script behaves. The locator fails exactly when no candidate
  survives. Otherwise it returns a surviving candidate whose computed area, the
  product of rendered width and height rounded to a double as the script's
  multiplication rounds it, is the largest, and every candidate that stands before it
  in the selector's result order has a strictly smaller computed area: among
  candidates of equal computed area the earliest is chosen. A candidate whose exact
  area is larger than that of the chosen one has the same computed area, so the two
  differ by less than the rounding. Where every product is a whole number below
  \<open>2 ^ 53\<close>, computed and exact areas agree: the chosen candidate has the largest
  exact area and every earlier one a strictly smaller exact area.
\<close>

theorem largest_area_earliest_wins:
  "(findLargestMediaElement doc = None \<longleftrightarrow> collect doc selectors = [])
   \<and> (\<forall>e. findLargestMediaElement doc = Some e \<longrightarrow>
         (\<exists>i < length (collect doc selectors).
            collect doc selectors ! i = e
            \<and> (\<forall>c \<in> set (collect doc selectors).
                   to_double (rect_width c * rect_height c)
                     \<le> to_double (rect_width e * rect_height e))
            \<and> (\<forall>j < i.
                   to_double (rect_width (collect doc selectors ! j)
                                * rect_height (collect doc selectors ! j))
                     < to_double (rect_width e * rect_height e))
            \<and> (\<forall>c \<in> set (collect doc selectors).
                   rect_width e * rect_height e < rect_width c * rect_height c \<longrightarrow>
                   to_double (rect_width c * rect_height c)
                     = to_double (rect_width e * rect_height e))
            \<and> ((\<forall>c \<in> set (collect doc selectors).
                    \<exists>n. 0 < n \<and> n < 2 ^ 53 \<and> rect_width c * rect_height c = of_int n) \<longrightarrow>
                 (\<forall>c \<in> set (collect doc selectors).
                    rect_width c * rect_height c \<le> rect_width e * rect_height e)
                 \<and> (\<forall>j < i.
                    rect_width (collect doc selectors ! j) * rect_height (collect doc selectors ! j)
                      < rect_width e * rect_height e))))"
proof (intro conjI allI impI)
  show "findLargestMediaElement doc = None \<longleftrightarrow> collect doc selectors = []"
    by (rule find_None_iff)
next
  fix e
  let ?cs = "collect doc selectors"
  assume "findLargestMediaElement doc = Some e"
  then have "first_largest ?cs e" by (rule find_Some_first_largest)
  then obtain i where i: "i < length ?cs" "?cs ! i = e"
    and most: "\<forall>c \<in> set ?cs. to_double (rect_width c * rect_height c)
                               \<le> to_double (rect_width e * rect_height e)"
    and before: "\<forall>j < i. to_double (rect_width (?cs ! j) * rect_height (?cs ! j))
                          < to_double (rect_width e * rect_height e)"
    using first_largest_products by blast
  from i have e_in: "e \<in> set ?cs" by (auto simp: in_set_conv_nth)
  then have e_pos: "0 < rect_width e * rect_height e"
    by (intro kept_product_pos collect_keep)
  have within: "\<forall>c \<in> set ?cs.
                   rect_width e * rect_height e < rect_width c * rect_height c \<longrightarrow>
                   to_double (rect_width c * rect_height c)
                     = to_double (rect_width e * rect_height e)"
  proof (intro ballI impI)
    fix c assume c: "c \<in> set ?cs"
      and "rect_width e * rect_height e < rect_width c * rect_height c"
    then have "to_double (rect_width e * rect_height e) \<le> to_double (rect_width c * rect_height c)"
      using e_pos by (intro to_double_mono) simp_all
    with most c show "to_double (rect_width c * rect_height c)
                     = to_double (rect_width e * rect_height e)"
      by (intro order_antisym) simp_all
  qed
  have exact: "(\<forall>c \<in> set ?cs. rect_width c * rect_height c \<le> rect_width e * rect_height e)
                 \<and> (\<forall>j < i. rect_width (?cs ! j) * rect_height (?cs ! j)
                      < rect_width e * rect_height e)"
    if whole: "\<forall>c \<in> set ?cs. \<exists>n. 0 < n \<and> n < 2 ^ 53 \<and> rect_width c * rect_height c = of_int n"
  proof -
    have same: "to_double (rect_width c * rect_height c) = rect_width c * rect_height c"
      if "c \<in> set ?cs" for c
    proof -
      from whole that obtain n where "0 < n" "n < 2 ^ 53" "rect_width c * rect_height c = of_int n"
        by blast
      then show ?thesis by (simp add: to_double_of_int)
    qed
    have "\<forall>c \<in> set ?cs. rect_width c * rect_height c \<le> rect_width e * rect_height e"
      using most same e_in by simp
    moreover have "\<forall>j < i. rect_width (?cs ! j) * rect_height (?cs ! j)
                      < rect_width e * rect_height e"
    proof (intro allI impI)
      fix j assume j: "j < i"
      with i(1) have "?cs ! j \<in> set ?cs" by simp
      with before j same e_in show "rect_width (?cs ! j) * rect_height (?cs ! j)
                      < rect_width e * rect_height e"
        by (metis)
    qed
    ultimately show ?thesis by blast
  qed
  from i most before within exact
  show "\<exists>i < length ?cs.
            ?cs ! i = e
            \<and> (\<forall>c \<in> set ?cs.
                   to_double (rect_width c * rect_height c)
                     \<le> to_double (rect_width e * rect_height e))
            \<and> (\<forall>j < i.
                   to_double (rect_width (?cs ! j) * rect_height (?cs ! j))
                     < to_double (rect_width e * rect_height e))
            \<and> (\<forall>c \<in> set ?cs.
                   rect_width e * rect_height e < rect_width c * rect_height c \<longrightarrow>
                   to_double (rect_width c * rect_height c)
                     = to_double (rect_width e * rect_height e))
            \<and> ((\<forall>c \<in> set ?cs.
                    \<exists>n. 0 < n \<and> n < 2 ^ 53 \<and> rect_width c * rect_height c = of_int n) \<longrightarrow>
                 (\<forall>c \<in> set ?cs.
                    rect_width c * rect_height c \<le> rect_width e * rect_height e)
                 \<and> (\<forall>j < i.
                    rect_width (?cs ! j) * rect_height (?cs ! j)
                      < rect_width e * rect_height e))"
    by blast
qed


lemma to_double_3600: "to_double 3600 = 3600"
  using to_double_of_int [of 3600] by simp

lemma to_double_480000: "to_double 480000 = 480000"
  using to_double_of_int [of 480000] by simp

theorem largest_area_earliest_wins_witness:
  "collect later_doc selectors = [image 1 60 60 60 60, image 2 800 600 800 600]
   \<and> rect_width (image 1 60 60 60 60) * rect_height (image 1 60 60 60 60) = 3600
   \<and> rect_width (image 2 800 600 800 600) * rect_height (image 2 800 600 800 600) = 480000
   \<and> findLargestMediaElement later_doc = Some (image 2 800 600 800 600)
   \<and> (\<exists>i < length (collect later_doc selectors).
         collect later_doc selectors ! i = image 2 800 600 800 600
         \<and> (\<forall>c \<in> set (collect later_doc selectors).
               rect_width c * rect_height c
                 \<le> rect_width (image 2 800 600 800 600) * rect_height (image 2 800 600 800 600))
         \<and> (\<forall>j < i.
               rect_width (collect later_doc selectors ! j) * rect_height (collect later_doc selectors ! j)
                 < rect_width (image 2 800 600 800 600) * rect_height (image 2 800 600 800 600)))
   \<and> collect tie_doc selectors = [image 1 100 100 100 100, image 2 200 50 200 50]
   \<and> rect_width (image 1 100 100 100 100) * rect_height (image 1 100 100 100 100) = 10000
   \<and> rect_width (image 2 200 50 200 50) * rect_height (image 2 200 50 200 50) = 10000
   \<and> findLargestMediaElement tie_doc = Some (image 1 100 100 100 100)
   \<and> (\<exists>i < length (collect tie_doc selectors).
         collect tie_doc selectors ! i = image 1 100 100 100 100
         \<and> (\<forall>j < i.
               to_double (rect_width (collect tie_doc selectors ! j)
                            * rect_height (collect tie_doc selectors ! j))
                 < to_double (rect_width (image 1 100 100 100 100)
                                * rect_height (image 1 100 100 100 100))))"
proof -
  let ?small = "image 1 60 60 60 60" and ?big = "image 2 800 600 800 600"
  let ?square = "image 1 100 100 100 100" and ?wide = "image 2 200 50 200 50"
  have cands: "collect later_doc selectors = [?small, ?big]"
    by (simp add: locator_defs later_doc_def)
  have products: "rect_width ?small * rect_height ?small = 3600"
    "rect_width ?big * rect_height ?big = 480000"
    by (simp_all add: image_def)
  have found: "findLargestMediaElement later_doc = Some ?big"
    by (simp add: locator_defs later_doc_def to_double_3600 to_double_480000)
  have "\<exists>n::int. 0 < n \<and> n < 2 ^ 53 \<and> rect_width ?small * rect_height ?small = of_int n"
    unfolding products by (rule exI [of _ 3600]) simp
  moreover have "\<exists>n::int. 0 < n \<and> n < 2 ^ 53 \<and> rect_width ?big * rect_height ?big = of_int n"
    unfolding products by (rule exI [of _ 480000]) simp
  ultimately have whole: "\<forall>c \<in> set (collect later_doc selectors).
      \<exists>n. 0 < n \<and> n < 2 ^ 53 \<and> rect_width c * rect_height c = of_int n"
    unfolding cands by simp
  from largest_area_earliest_wins [of later_doc] found whole
  have later: "\<exists>i < length (collect later_doc selectors).
         collect later_doc selectors ! i = ?big
         \<and> (\<forall>c \<in> set (collect later_doc selectors).
               rect_width c * rect_height c \<le> rect_width ?big * rect_height ?big)
         \<and> (\<forall>j < i.
               rect_width (collect later_doc selectors ! j) * rect_height (collect later_doc selectors ! j)
                 < rect_width ?big * rect_height ?big)"
    by blast
  have tie_cands: "collect tie_doc selectors = [?square, ?wide]"
    by (simp add: locator_defs tie_doc_def)
  have tie_products: "rect_width ?square * rect_height ?square = 10000"
    "rect_width ?wide * rect_height ?wide = 10000"
    by (simp_all add: image_def)
  have tie_found: "findLargestMediaElement tie_doc = Some ?square"
    by (simp add: locator_defs tie_doc_def)
  from largest_area_earliest_wins [of tie_doc] tie_found
  have tie: "\<exists>i < length (collect tie_doc selectors).
         collect tie_doc selectors ! i = ?square
         \<and> (\<forall>j < i.
               to_double (rect_width (collect tie_doc selectors ! j)
                            * rect_height (collect tie_doc selectors ! j))
                 < to_double (rect_width ?square * rect_height ?square))"
    by blast
  from cands products found later tie_cands tie_products tie_found tie
  show ?thesis by blast
qed

text \<open>
  Claim C3 as stated fails where two products round to the same double: on
  \<open>rounding_doc\<close> the second image has the larger area, the script computes the same
  area for both, and the locator returns the first.
\<close>

theorem rounded_product_tie_counterexample:
  "collect rounding_doc selectors =
     [image 1 100 (100 + 1 / 2 ^ 25) 100 100,
      image 2 (100 + 1 / 2 ^ 26) (100 + 1 / 2 ^ 26) 100 100]
   \<and> rect_width (image 1 100 (100 + 1 / 2 ^ 25) 100 100)
         * rect_height (image 1 100 (100 + 1 / 2 ^ 25) 100 100)
       < rect_width (image 2 (100 + 1 / 2 ^ 26) (100 + 1 / 2 ^ 26) 100 100)
         * rect_height (image 2 (100 + 1 / 2 ^ 26) (100 + 1 / 2 ^ 26) 100 100)
   \<and> findLargestMediaElement rounding_doc = Some (image 1 100 (100 + 1 / 2 ^ 25) 100 100)"
  by code_simp

subsection \<open>What the handlers leave alone\<close>


lemma applyTransform_fields [simp]:
  "currentFileId (applyTransform s) = currentFileId s"
  "currentTarget (applyTransform s) = currentTarget s"
  "angle (applyTransform s) = angle s"
  "flipX (applyTransform s) = flipX s"
  "initAttempts (applyTransform s) = initAttempts s"
  "last_href (applyTransform s) = last_href s"
  "statusText (applyTransform s) = statusText s"
  "store (applyTransform s) = store s"
  "inflight (applyTransform s) = inflight s"
  "timers (applyTransform s) = timers s"
  by (simp_all add: applyTransform_def split: option.splits)

lemma applyAndSave_fields [simp]:
  "currentFileId (applyAndSave ok s) = currentFileId s"
  "currentTarget (applyAndSave ok s) = currentTarget s"
  "angle (applyAndSave ok s) = angle s"
  "flipX (applyAndSave ok s) = flipX s"
  "initAttempts (applyAndSave ok s) = initAttempts s"
  "last_href (applyAndSave ok s) = last_href s"
  "statusText (applyAndSave ok s) = statusText s"
  "inflight (applyAndSave ok s) = inflight s"
  "timers (applyAndSave ok s) = timers s"
  by (simp_all add: applyAndSave_def Let_def)

lemma applyAndSave_store:
  "store (applyAndSave ok s) =
     snd (saveState (currentFileId s) \<lparr>p_angle = Some (angle s), p_flipX = Some (flipX s)\<rparr> ok (store s))"
  by (simp add: applyAndSave_def Let_def)

lemma updateToolbarStatus_fields [simp]:
  "currentFileId (updateToolbarStatus m s) = currentFileId s"
  "currentTarget (updateToolbarStatus m s) = currentTarget s"
  "angle (updateToolbarStatus m s) = angle s"
  "flipX (updateToolbarStatus m s) = flipX s"
  "initAttempts (updateToolbarStatus m s) = initAttempts s"
  "last_href (updateToolbarStatus m s) = last_href s"
  "styles (updateToolbarStatus m s) = styles s"
  "store (updateToolbarStatus m s) = store s"
  "inflight (updateToolbarStatus m s) = inflight s"
  "timers (updateToolbarStatus m s) = timers s"
  by (simp_all add: updateToolbarStatus_def split: option.splits)

lemma setTarget_fields [simp]:
  "currentFileId (setTarget el s) = currentFileId s"
  "angle (setTarget el s) = angle s"
  "flipX (setTarget el s) = flipX s"
  "initAttempts (setTarget el s) = initAttempts s"
  "last_href (setTarget el s) = last_href s"
  "statusText (setTarget el s) = statusText s"
  "store (setTarget el s) = store s"
  "inflight (setTarget el s) = inflight s"
  "timers (setTarget el s) = timers s"
  by (simp_all add: setTarget_def split: option.splits)

lemma run_Nil [simp]: "run [] s = s"
  by (simp add: run_def)

lemma run_Cons [simp]: "run (ev # evs) s = run evs (step ev s)"
  by (simp add: run_def)

lemma run_append: "run (xs @ ys) s = run ys (run xs s)"
  by (simp add: run_def)

subsection \<open>Rotating left and right\<close>

lemma js_rem_nonneg: "0 \<le> a \<Longrightarrow> js_rem a 360 = a mod 360"
  by (simp add: js_rem_def)

lemma js_rem_cong: "js_rem a 360 mod 360 = a mod 360"
  by (simp add: js_rem_def mod_minus_eq)

lemma mod360_wrap: "360 \<le> x \<Longrightarrow> x < 720 \<Longrightarrow> x mod 360 = x - (360::int)"
proof -
  assume "360 \<le> x" "x < 720"
  then have "0 \<le> x - 360" "x - 360 < 360" by simp_all
  then have "(x - 360) mod 360 = x - 360" by (rule mod_pos_pos_trivial)
  moreover have "(x - 360) mod 360 = x mod 360" by (rule minus_mod_self2)
  ultimately show ?thesis by simp
qed

lemma rotateRight_in_range:
  "0 \<le> a \<Longrightarrow> a < 360 \<Longrightarrow> rotateRight a = (if a < 270 then a + 90 else a - 270)"
  by (simp add: rotateRight_def js_rem_def mod360_wrap)

lemma rotateLeft_in_range:
  "0 \<le> a \<Longrightarrow> a < 360 \<Longrightarrow> rotateLeft a = (if a < 90 then a + 270 else a - 90)"
  by (simp add: rotateLeft_def js_rem_def mod360_wrap)

lemma rotateRight_range:
  "0 \<le> a \<Longrightarrow> a < 360 \<Longrightarrow> 0 \<le> rotateRight a \<and> rotateRight a < 360"
  by (simp add: rotateRight_in_range)

lemma rotateLeft_range:
  "0 \<le> a \<Longrightarrow> a < 360 \<Longrightarrow> 0 \<le> rotateLeft a \<and> rotateLeft a < 360"
  by (simp add: rotateLeft_in_range)

lemma rotateLeft_rotateRight:
  "0 \<le> a \<Longrightarrow> a < 360 \<Longrightarrow> rotateLeft (rotateRight a) = a"
  using rotateRight_range [of a] by (simp add: rotateLeft_in_range) (simp add: rotateRight_in_range)

lemma rotateRight_rotateLeft:
  "0 \<le> a \<Longrightarrow> a < 360 \<Longrightarrow> rotateRight (rotateLeft a) = a"
  using rotateLeft_range [of a] by (simp add: rotateRight_in_range) (simp add: rotateLeft_in_range)

lemma rotate_n_inverse:
  "0 \<le> a \<Longrightarrow> a < 360 \<Longrightarrow> (rotateLeft ^^ n) ((rotateRight ^^ n) a) = a"
proof (induction n arbitrary: a)
  case 0
  then show ?case by simp
next
  case (Suc n)
  from Suc.prems have r: "0 \<le> rotateRight a" "rotateRight a < 360"
    using rotateRight_range by simp_all
  have "(rotateLeft ^^ Suc n) ((rotateRight ^^ Suc n) a)
          = rotateLeft ((rotateLeft ^^ n) ((rotateRight ^^ n) (rotateRight a)))"
    by (simp add: funpow_swap1)
  also have "\<dots> = rotateLeft (rotateRight a)"
    using Suc.IH [OF r] by simp
  also have "\<dots> = a"
    using Suc.prems by (rule rotateLeft_rotateRight)
  finally show ?case .
qed

lemma rotateRight_mod: "rotateRight a mod 360 = (a + 90) mod 360"
  by (simp add: rotateRight_def js_rem_cong)

lemma rotateLeft_mod: "rotateLeft a mod 360 = (a + 270) mod 360"
  by (simp add: rotateLeft_def js_rem_cong add.commute)

lemma rotateRight_n_mod: "(rotateRight ^^ n) a mod 360 = (a + 90 * int n) mod 360"
proof (induction n)
  case 0
  then show ?case by simp
next
  case (Suc n)
  have "(rotateRight ^^ Suc n) a mod 360 = ((rotateRight ^^ n) a + 90) mod 360"
    by (simp add: rotateRight_mod)
  also have "\<dots> = ((rotateRight ^^ n) a mod 360 + 90) mod 360"
    by (simp add: mod_add_left_eq)
  also have "\<dots> = ((a + 90 * int n) mod 360 + 90) mod 360"
    by (simp only: Suc.IH)
  also have "\<dots> = (a + 90 * int n + 90) mod 360"
    by (rule mod_add_left_eq)
  also have "a + 90 * int n + 90 = a + 90 * int (Suc n)"
    by simp
  finally show ?case .
qed

lemma rotateLeft_n_mod: "(rotateLeft ^^ n) a mod 360 = (a + 270 * int n) mod 360"
proof (induction n)
  case 0
  then show ?case by simp
next
  case (Suc n)
  have "(rotateLeft ^^ Suc n) a mod 360 = ((rotateLeft ^^ n) a + 270) mod 360"
    by (simp add: rotateLeft_mod)
  also have "\<dots> = ((rotateLeft ^^ n) a mod 360 + 270) mod 360"
    by (simp add: mod_add_left_eq)
  also have "\<dots> = ((a + 270 * int n) mod 360 + 270) mod 360"
    by (simp only: Suc.IH)
  also have "\<dots> = (a + 270 * int n + 270) mod 360"
    by (rule mod_add_left_eq)
  also have "a + 270 * int n + 270 = a + 270 * int (Suc n)"
    by simp
  finally show ?case .
qed

lemma rotate_n_inverse_mod: "(rotateLeft ^^ n) ((rotateRight ^^ n) a) mod 360 = a mod 360"
proof -
  have "(rotateLeft ^^ n) ((rotateRight ^^ n) a) mod 360
          = ((rotateRight ^^ n) a + 270 * int n) mod 360"
    by (rule rotateLeft_n_mod)
  also have "\<dots> = ((rotateRight ^^ n) a mod 360 + 270 * int n) mod 360"
    by (simp add: mod_add_left_eq)
  also have "\<dots> = ((a + 90 * int n) mod 360 + 270 * int n) mod 360"
    by (simp only: rotateRight_n_mod)
  also have "\<dots> = (a + 90 * int n + 270 * int n) mod 360"
    by (rule mod_add_left_eq)
  also have "a + 90 * int n + 270 * int n = a + 360 * int n"
    by simp
  also have "(a + 360 * int n) mod 360 = a mod 360"
    by simp
  finally show ?thesis .
qed

lemma click_right_angle: "angle (clickHandler (Some ''right'') ok s) = rotateRight (angle s)"
  by (simp add: clickHandler_def Let_def)

lemma click_left_angle: "angle (clickHandler (Some ''left'') ok s) = rotateLeft (angle s)"
  by (simp add: clickHandler_def Let_def)

lemma key_R_angle: "angle (keydownHandler (shift_key ''R'') ok s) = rotateRight (angle s)"
  by (simp add: keydownHandler_def shift_key_def toLowerCase_def lower_char_def)

lemma key_L_angle: "angle (keydownHandler (shift_key ''L'') ok s) = rotateLeft (angle s)"
  by (simp add: keydownHandler_def shift_key_def toLowerCase_def lower_char_def)

lemma run_replicate_angle:
  assumes "\<And>s. angle (step ev s) = f (angle s)"
  shows "angle (run (replicate n ev) s) = (f ^^ n) (angle s)"
proof (induction n arbitrary: s)
  case 0
  then show ?case by simp
next
  case (Suc n)
  then show ?case by (simp add: assms funpow_swap1)
qed

lemma clicks_right_angle:
  "angle (run (replicate n (Click (Some ''right'') ok)) s) = (rotateRight ^^ n) (angle s)"
  by (rule run_replicate_angle) (simp add: click_right_angle)

lemma clicks_left_angle:
  "angle (run (replicate n (Click (Some ''left'') ok)) s) = (rotateLeft ^^ n) (angle s)"
  by (rule run_replicate_angle) (simp add: click_left_angle)

lemma keys_R_angle:
  "angle (run (replicate n (Keydown (shift_key ''R'') ok)) s) = (rotateRight ^^ n) (angle s)"
  by (rule run_replicate_angle) (simp add: key_R_angle)

lemma keys_L_angle:
  "angle (run (replicate n (Keydown (shift_key ''L'') ok)) s) = (rotateLeft ^^ n) (angle s)"
  by (rule run_replicate_angle) (simp add: key_L_angle)

text \<open>
  Claim C5. On each of the angles 0, 90, 180 and 270 rotate-left undoes rotate-right,
  and \<open>n\<close> rotations to the right followed by \<open>n\<close> to the left give the angle back.
  From any integer angle the result is congruent to the start modulo 360. The click
  path and the keyboard path both apply these two updates: \<open>n\<close> clicks (or Shift+R
  presses) followed by \<open>n\<close> clicks on rotate-left (or Shift+L presses) leave the angle
  \<open>n\<close> right rotations and \<open>n\<close> left rotations from where it was.
\<close>

theorem rotate_left_right_inverse:
  "(a \<in> {0, 90, 180, 270} \<longrightarrow>
      rotateLeft (rotateRight a) = a \<and> (rotateLeft ^^ n) ((rotateRight ^^ n) a) = a)
   \<and> (rotateLeft ^^ n) ((rotateRight ^^ n) a) mod 360 = a mod 360
   \<and> angle (run (replicate n (Click (Some ''right'') ok) @ replicate n (Click (Some ''left'') ok)) s)
       = (rotateLeft ^^ n) ((rotateRight ^^ n) (angle s))
   \<and> angle (run (replicate n (Keydown (shift_key ''R'') ok) @ replicate n (Keydown (shift_key ''L'') ok)) s)
       = (rotateLeft ^^ n) ((rotateRight ^^ n) (angle s))"
proof (intro conjI impI)
  assume "a \<in> {0, 90, 180, 270}"
  then have r: "0 \<le> a" "a < 360" by auto
  from r show "rotateLeft (rotateRight a) = a" by (rule rotateLeft_rotateRight)
  from r show "(rotateLeft ^^ n) ((rotateRight ^^ n) a) = a" by (rule rotate_n_inverse)
next
  show "(rotateLeft ^^ n) ((rotateRight ^^ n) a) mod 360 = a mod 360"
    by (rule rotate_n_inverse_mod)
next
  show "angle (run (replicate n (Click (Some ''right'') ok) @ replicate n (Click (Some ''left'') ok)) s)
       = (rotateLeft ^^ n) ((rotateRight ^^ n) (angle s))"
    by (simp only: run_append clicks_left_angle clicks_right_angle)
next
  show "angle (run (replicate n (Keydown (shift_key ''R'') ok) @ replicate n (Keydown (shift_key ''L'') ok)) s)
       = (rotateLeft ^^ n) ((rotateRight ^^ n) (angle s))"
    by (simp only: run_append keys_L_angle keys_R_angle)
qed




theorem rotate_left_right_inverse_witness:
  "(270::int) \<in> {0, 90, 180, 270}
   \<and> rotateRight 270 = 0
   \<and> rotateLeft (rotateRight 270) = 270
   \<and> (rotateLeft ^^ 3) ((rotateRight ^^ 3) 270) = 270"
  using rotate_left_right_inverse [of 270 3]
  by (simp add: rotateRight_in_range)

subsection \<open>The state store\<close>

lemma saveState_fulfilled: "fst (saveState fileId state ok st) = Fulfilled"
  by (simp add: saveState_def storage_set_def catch_ignore_def Let_def split: option.splits)

lemma saveState_noop:
  "fileId \<in> {None, Some []} \<or> \<not> ok \<Longrightarrow> snd (saveState fileId state ok st) = st"
  by (auto simp: saveState_def storage_set_def Let_def split: option.splits)

lemma saveState_writes:
  "fid \<noteq> [] \<Longrightarrow> snd (saveState (Some fid) state True st) = st(STORAGE_PREFIX @ fid \<mapsto> state)"
  by (simp add: saveState_def storage_set_def Let_def)

lemma loadState_after_save:
  "fid \<noteq> [] \<Longrightarrow>
   loadState (Some fid) (snd (saveState fileId state ok st)) =
     (if fileId = Some fid \<and> ok then Some state else loadState (Some fid) st)"
  by (auto simp: loadState_def saveState_def storage_set_def Let_def split: option.splits)

lemma save_all_Cons:
  "save_all ((fileId, state, ok) # reqs) st = save_all reqs (snd (saveState fileId state ok st))"
  by (simp add: save_all_def)

lemma loadState_save_all:
  "fid \<noteq> [] \<Longrightarrow>
   loadState (Some fid) (save_all reqs st) =
     (case last_saved fid reqs of Some v \<Rightarrow> Some v | None \<Rightarrow> loadState (Some fid) st)"
proof (induction reqs arbitrary: st)
  case Nil
  then show ?case by (simp add: save_all_def)
next
  case (Cons req reqs)
  obtain fileId state ok where req: "req = (fileId, state, ok)"
    by (cases req) auto
  show ?case
    using Cons.prems
    by (simp add: req save_all_Cons Cons.IH loadState_after_save split: option.splits)
qed

text \<open>
  Claim C7. \<^verbatim>\<open>saveState\<close> never leaves a rejection behind. It writes nothing when the
  file id is absent (\<^verbatim>\<open>null\<close> or empty) or the storage rejects the write; otherwise it
  binds the file's key to the state, replacing what was there. \<^verbatim>\<open>loadState\<close> gives
  nothing for an absent file id or a file without a record; after any sequence of saves
  it gives the state of the latest accepted save for that file, and what was stored
  before when there was none.
\<close>

theorem state_store_contract:
  "fst (saveState fileId state ok st) = Fulfilled
   \<and> (fileId \<in> {None, Some []} \<or> \<not> ok \<longrightarrow> snd (saveState fileId state ok st) = st)
   \<and> (fid \<noteq> [] \<longrightarrow>
        snd (saveState (Some fid) state True st) = st(STORAGE_PREFIX @ fid \<mapsto> state)
        \<and> loadState (Some fid) (save_all reqs st) =
            (case last_saved fid reqs of Some v \<Rightarrow> Some v | None \<Rightarrow> loadState (Some fid) st)
        \<and> (st (STORAGE_PREFIX @ fid) = None \<longrightarrow> loadState (Some fid) st = None))
   \<and> loadState None st = None \<and> loadState (Some []) st = None"
  using saveState_fulfilled saveState_noop saveState_writes loadState_save_all
  by (simp add: loadState_def)

theorem state_store_contract_witness:
  "snd (saveState None (saved_as 90) True Map.empty) = Map.empty
   \<and> snd (saveState (Some ''f1'') (saved_as 90) False Map.empty) = Map.empty
   \<and> ''f1'' \<noteq> []
   \<and> loadState (Some ''f1'')
        (save_all [(Some ''f1'', saved_as 90, True), (Some ''f2'', saved_as 180, True),
                   (Some ''f1'', saved_as 270, False)] Map.empty) = Some (saved_as 90)
   \<and> loadState (Some ''f1'') Map.empty = None"
proof -
  have a: "snd (saveState None (saved_as 90) True Map.empty) = Map.empty"
    using state_store_contract [of None "saved_as 90" True Map.empty] by simp
  have b: "snd (saveState (Some ''f1'') (saved_as 90) False Map.empty) = Map.empty"
    using state_store_contract [of "Some ''f1''" "saved_as 90" False Map.empty] by simp
  have c: "loadState (Some ''f1'')
        (save_all [(Some ''f1'', saved_as 90, True), (Some ''f2'', saved_as 180, True),
                   (Some ''f1'', saved_as 270, False)] Map.empty) = Some (saved_as 90)
      \<and> loadState (Some ''f1'') Map.empty = None"
    using state_store_contract [where fid = "''f1''" and st = Map.empty
        and reqs = "[(Some ''f1'', saved_as 90, True), (Some ''f2'', saved_as 180, True),
          (Some ''f1'', saved_as 270, False)]"]
    by simp
  from a b c show ?thesis by simp
qed

subsection \<open>The angle stays one of the four\<close>

lemma valid_rotateRight: "valid_angle a \<Longrightarrow> valid_angle (rotateRight a)"
  by (auto simp: valid_angle_def rotateRight_in_range)

lemma valid_rotateLeft: "valid_angle a \<Longrightarrow> valid_angle (rotateLeft a)"
  by (auto simp: valid_angle_def rotateLeft_in_range)

lemma storage_ok_save:
  "storage_ok st \<Longrightarrow> record_ok r \<Longrightarrow> storage_ok (snd (saveState fileId r ok st))"
  by (auto simp: storage_ok_def saveState_def storage_set_def Let_def split: option.splits)

lemma storage_ok_load: "storage_ok st \<Longrightarrow> loadState fileId st = Some r \<Longrightarrow> record_ok r"
  by (auto simp: storage_ok_def loadState_def split: option.splits if_splits)

lemma page_ok_applyTransform: "page_ok s \<Longrightarrow> page_ok (applyTransform s)"
  by (simp add: page_ok_def)

lemma page_ok_applyAndSave: "page_ok s \<Longrightarrow> page_ok (applyAndSave ok s)"
  by (simp add: page_ok_def applyAndSave_store storage_ok_save record_ok_def)

lemma page_ok_angle_update:
  "page_ok s \<Longrightarrow> valid_angle a \<Longrightarrow> page_ok (s\<lparr>angle := a\<rparr>)"
  by (simp add: page_ok_def)

lemma page_ok_flip_update: "page_ok s \<Longrightarrow> page_ok (s\<lparr>flipX := f\<rparr>)"
  by (simp add: page_ok_def)

lemma valid_angle_0: "valid_angle 0"
  by (simp add: valid_angle_def)

lemma page_ok_angle: "page_ok s \<Longrightarrow> valid_angle (angle s)"
  by (simp add: page_ok_def)

lemma page_ok_click: "page_ok s \<Longrightarrow> page_ok (clickHandler btn ok s)"
  unfolding clickHandler_def Let_def
  by (auto split: option.splits
        intro!: page_ok_applyAndSave page_ok_angle_update page_ok_flip_update
                valid_rotateLeft valid_rotateRight valid_angle_0 page_ok_angle)

lemma page_ok_keydown: "page_ok s \<Longrightarrow> page_ok (keydownHandler e ok s)"
  unfolding keydownHandler_def
  by (auto intro!: page_ok_applyAndSave page_ok_angle_update page_ok_flip_update
                valid_rotateLeft valid_rotateRight valid_angle_0 page_ok_angle)

lemma page_ok_load: "page_ok s \<Longrightarrow> page_ok (loadRotationState s)"
  by (auto simp: page_ok_def loadRotationState_def dest: storage_ok_load [OF _ sym])

lemma page_ok_resume:
  "page_ok s \<Longrightarrow> (\<And>r. saved = Some r \<Longrightarrow> record_ok r) \<Longrightarrow> page_ok (loadRotationState_resume saved s)"
  by (auto simp: page_ok_def loadRotationState_resume_def Let_def record_ok_def valid_angle_0
           split: option.splits)

lemma page_ok_tick: "page_ok s \<Longrightarrow> page_ok (tick now s)"
proof -
  assume ok: "page_ok s"
  have a: "page_ok (s\<lparr>last_href := now\<rparr>)"
    using ok by (simp add: page_ok_def)
  have b: "page_ok (s\<lparr>last_href := now, currentFileId := Some f\<rparr>)" for f
    using ok by (simp add: page_ok_def)
  have c: "page_ok t \<Longrightarrow> page_ok (t\<lparr>initAttempts := 0\<rparr>)" for t
    by (simp add: page_ok_def)
  show ?thesis
    unfolding tick_def Let_def using ok a b by (auto intro!: c page_ok_load)
qed

lemma page_ok_assignTarget: "page_ok s \<Longrightarrow> page_ok (assignTarget doc s)"
  by (auto simp: page_ok_def assignTarget_def Let_def split: option.splits)

lemma page_ok_step: "page_ok s \<Longrightarrow> page_ok (step ev s)"
proof (cases ev)
  case StorageReply
  assume ok: "page_ok s"
  show ?thesis
  proof (cases "inflight s")
    case Nil
    with ok StorageReply show ?thesis by simp
  next
    case (Cons saved rest)
    from ok Cons have "page_ok (s\<lparr>inflight := rest\<rparr>)"
      by (simp add: page_ok_def)
    moreover from ok Cons have "\<And>r. saved = Some r \<Longrightarrow> record_ok r"
      by (simp add: page_ok_def)
    ultimately show ?thesis
      using StorageReply Cons by (simp add: page_ok_resume)
  qed
next
  case (TimerFires doc)
  assume ok: "page_ok s"
  then have "page_ok (s\<lparr>timers := timers s - 1\<rparr>)"
    by (simp add: page_ok_def)
  with ok TimerFires show ?thesis by (simp add: page_ok_assignTarget)
next
  case Teardown
  assume "page_ok s"
  with Teardown show ?thesis by (simp add: teardown_def page_ok_def)
qed (simp_all add: page_ok_click page_ok_keydown page_ok_tick page_ok_assignTarget)

lemma page_ok_run: "page_ok s \<Longrightarrow> page_ok (run evs s)"
  by (induction evs arbitrary: s) (simp_all add: page_ok_step)

lemma page_ok_script_start: "storage_ok st \<Longrightarrow> page_ok (script_start url st)"
  by (simp add: page_ok_def script_start_def valid_angle_0)

lemma page_ok_init: "page_ok s \<Longrightarrow> page_ok (init url s)"
proof -
  assume a: "page_ok s"
  then have "page_ok (ensureToolbar url (s\<lparr>currentFileId := Some (fileIdOrGeneral url)\<rparr>))"
    by (simp add: page_ok_def ensureToolbar_def split: option.splits)
  then have "page_ok (initOnDrive url s)"
    unfolding initOnDrive_def by (rule page_ok_load)
  with a show ?thesis by (simp add: init_def)
qed

text \<open>
  Claim C6, as the script behaves. Start the script on any address with a storage
  area whose records hold angles of the data model (\<open>storage_ok\<close>: what the script
  itself writes), and let any events happen before and after the script initialises,
  in any order: clicks, key presses, address changes, answers to storage reads, locate
  attempts, teardown. The angle is then one of 0, 90, 180, 270, and the storage area
  still holds only such records.
\<close>

theorem angle_always_valid:
  "storage_ok st \<Longrightarrow>
   angle (run evs' (init url' (run evs (script_start url st)))) \<in> {0, 90, 180, 270}
   \<and> storage_ok (store (run evs' (init url' (run evs (script_start url st)))))"
proof -
  assume "storage_ok st"
  then have "page_ok (run evs' (init url' (run evs (script_start url st))))"
    by (intro page_ok_run page_ok_init page_ok_script_start)
  then show ?thesis by (simp add: page_ok_def valid_angle_def)
qed




theorem angle_always_valid_witness:
  "storage_ok [STORAGE_PREFIX @ ''f1'' \<mapsto> saved_as 180]
   \<and> angle (run [StorageReply, Click (Some ''left'') True]
         (init url_f1 (run [Frame url_f1]
            (script_start url_f2 [STORAGE_PREFIX @ ''f1'' \<mapsto> saved_as 180]))))
       \<in> {0, 90, 180, 270}
   \<and> storage_ok (store (run [StorageReply, Click (Some ''left'') True]
         (init url_f1 (run [Frame url_f1]
            (script_start url_f2 [STORAGE_PREFIX @ ''f1'' \<mapsto> saved_as 180])))))"
proof -
  have ok: "storage_ok [STORAGE_PREFIX @ ''f1'' \<mapsto> saved_as 180]"
    by (simp add: storage_ok_def record_ok_def valid_angle_def saved_as_def)
  from angle_always_valid [OF ok] ok show ?thesis by blast
qed

text \<open>
  Claim C6 as stated fails for a stored record with another angle: the script starts
  on file \<open>f1\<close> with a record of angle 45 stored for it; once the read is answered
  the angle is 45, and after a click on rotate-right it is 135.
\<close>

theorem stored_angle_loaded_unchecked_counterexample:
  "angle (run [StorageReply]
       (init url_f1 (script_start url_f1 [STORAGE_PREFIX @ ''f1'' \<mapsto> saved_as 45]))) = 45
   \<and> angle (run [StorageReply, click_right]
       (init url_f1 (script_start url_f1 [STORAGE_PREFIX @ ''f1'' \<mapsto> saved_as 45]))) = 135
   \<and> (45::int) \<notin> {0, 90, 180, 270} \<and> (135::int) \<notin> {0, 90, 180, 270}"
  by (simp add: init_def isDriveUrl_def url_f1_def initOnDrive_def fileIdOrGeneral_def
        script_start_def ensureToolbar_def loadRotationState_def truthy_str_def loadState_def
        loadRotationState_resume_def click_right_def clickHandler_def rotateRight_def
        js_rem_def saved_as_def Let_def)

subsection \<open>The bounded retry schedule\<close>

lemma find_empty_doc: "findLargestMediaElement empty_doc = None"
  by (simp add: find_None_iff collect_Nil_iff empty_doc_def)

lemma assignTarget_attempts: "initAttempts (assignTarget doc s) = Suc (initAttempts s)"
  by (simp add: assignTarget_def Let_def split: option.splits)

lemma assignTarget_timers:
  "timers (assignTarget doc s) =
     (if findLargestMediaElement doc = None \<and> Suc (initAttempts s) \<le> 3
      then Suc (timers s) else timers s)"
  by (simp add: assignTarget_def Let_def split: option.splits)

lemma assignTarget_status_fail:
  "findLargestMediaElement doc = None \<Longrightarrow>
   statusText (assignTarget doc s) =
     (case statusText s of
        None \<Rightarrow> None
      | Some _ \<Rightarrow> Some (if Suc (initAttempts s) \<le> 3 then Searching (Suc (initAttempts s))
                       else NoMediaFound))"
  by (simp add: assignTarget_def Let_def updateToolbarStatus_def split: option.splits)

lemma retry_loop_timers: "timers (retry_loop doc s) = 0"
proof (induction doc s rule: retry_loop.induct)
  case (1 doc s)
  show ?case
  proof (cases "timers s = 0")
    case True
    then show ?thesis by (subst retry_loop.simps) simp
  next
    case False
    with 1 show ?thesis by (subst retry_loop.simps) simp
  qed
qed

lemma retry_loop_fails:
  assumes none: "findLargestMediaElement doc = None"
  shows "timers s = 1 \<Longrightarrow> initAttempts s = 3 - k \<Longrightarrow> k \<le> 3 \<Longrightarrow>
         initAttempts (retry_loop doc s) = 4
         \<and> (statusText s \<noteq> None \<longrightarrow> statusText (retry_loop doc s) = Some NoMediaFound)"
proof (induction k arbitrary: s)
  case 0
  let ?t = "step (TimerFires doc) s"
  from 0 have t: "initAttempts ?t = 4" "timers ?t = 0"
    by (simp_all add: assignTarget_attempts assignTarget_timers)
  from 0 none have st: "statusText s \<noteq> None \<longrightarrow> statusText ?t = Some NoMediaFound"
    by (auto simp: assignTarget_status_fail)
  have "retry_loop doc s = retry_loop doc ?t"
    using 0 by (subst retry_loop.simps) simp
  also have "\<dots> = ?t"
    using t by (subst retry_loop.simps) simp
  finally show ?case using t st by simp
next
  case (Suc k)
  let ?t = "step (TimerFires doc) s"
  from Suc.prems none have t: "initAttempts ?t = 3 - k" "timers ?t = 1"
    by (simp_all add: assignTarget_attempts assignTarget_timers)
  from Suc.prems none have st: "statusText s \<noteq> None \<longrightarrow> statusText ?t \<noteq> None"
    by (auto simp: assignTarget_status_fail)
  have "retry_loop doc s = retry_loop doc ?t"
    using Suc.prems by (subst retry_loop.simps) simp
  moreover from Suc.prems have "k \<le> 3" by simp
  ultimately show ?case
    using Suc.IH [OF t(2) t(1)] st by simp
qed

lemma assignTarget_finds:
  "findLargestMediaElement doc = Some el \<Longrightarrow> currentTarget s = None \<Longrightarrow>
   currentTarget (assignTarget doc s) = Some el"
  by (simp add: assignTarget_def Let_def setTarget_def)

text \<open>
  Claim C8, as the script behaves. Every attempt raises the counter by one. An attempt
  sets a retry timer exactly when it finds nothing and the counter, this attempt
  included, is at most 3; otherwise it sets none. A failed attempt shows the attempt
  number while it retries and the terminal message once it does not. The timer-driven
  loop always runs out of timers; from a fresh counter on a page without media it
  stops after the fourth attempt, with the terminal message. Whatever the counter, an
  attempt set off by a mutation or a resize that finds media binds it.
\<close>

theorem timer_retry_bound:
  "initAttempts (assignTarget doc s) = Suc (initAttempts s)
   \<and> (timers (assignTarget doc s) = Suc (timers s)
        \<longleftrightarrow> findLargestMediaElement doc = None \<and> Suc (initAttempts s) \<le> 3)
   \<and> (timers (assignTarget doc s) = timers s
        \<longleftrightarrow> \<not> (findLargestMediaElement doc = None \<and> Suc (initAttempts s) \<le> 3))
   \<and> (findLargestMediaElement doc = None \<and> statusText s \<noteq> None \<longrightarrow>
        statusText (assignTarget doc s) =
          Some (if Suc (initAttempts s) \<le> 3 then Searching (Suc (initAttempts s))
                else NoMediaFound))
   \<and> timers (retry_loop doc s) = 0
   \<and> (findLargestMediaElement doc = None \<and> initAttempts s = 0 \<and> timers s = 0 \<longrightarrow>
        initAttempts (retry_loop doc (assignTarget doc s)) = 4
        \<and> (statusText s \<noteq> None \<longrightarrow>
             statusText (retry_loop doc (assignTarget doc s)) = Some NoMediaFound))
   \<and> (findLargestMediaElement doc = Some el \<and> currentTarget s = None \<longrightarrow>
        currentTarget (step (Trigger doc) s) = Some el)"
proof (intro conjI impI)
  show "initAttempts (assignTarget doc s) = Suc (initAttempts s)"
    by (rule assignTarget_attempts)
  show "timers (assignTarget doc s) = Suc (timers s)
        \<longleftrightarrow> findLargestMediaElement doc = None \<and> Suc (initAttempts s) \<le> 3"
    by (simp add: assignTarget_timers)
  show "timers (assignTarget doc s) = timers s
        \<longleftrightarrow> \<not> (findLargestMediaElement doc = None \<and> Suc (initAttempts s) \<le> 3)"
    by (simp add: assignTarget_timers)
  show "timers (retry_loop doc s) = 0"
    by (rule retry_loop_timers)
next
  assume "findLargestMediaElement doc = None \<and> statusText s \<noteq> None"
  then show "statusText (assignTarget doc s) =
          Some (if Suc (initAttempts s) \<le> 3 then Searching (Suc (initAttempts s))
                else NoMediaFound)"
    by (auto simp: assignTarget_status_fail)
next
  assume a: "findLargestMediaElement doc = None \<and> initAttempts s = 0 \<and> timers s = 0"
  then have none: "findLargestMediaElement doc = None" by simp
  let ?s1 = "assignTarget doc s"
  from a have s1: "timers ?s1 = 1" "initAttempts ?s1 = 3 - 2"
    by (simp_all add: assignTarget_attempts assignTarget_timers)
  have st: "statusText s \<noteq> None \<Longrightarrow> statusText ?s1 \<noteq> None"
    using none by (auto simp: assignTarget_status_fail)
  from retry_loop_fails [OF none s1] 
  have r: "initAttempts (retry_loop doc ?s1) = 4"
    "statusText ?s1 \<noteq> None \<longrightarrow> statusText (retry_loop doc ?s1) = Some NoMediaFound"
    by simp_all
  from r(1) show "initAttempts (retry_loop doc (assignTarget doc s)) = 4" .
  assume "statusText s \<noteq> None"
  with st r(2) show "statusText (retry_loop doc (assignTarget doc s)) = Some NoMediaFound"
    by simp
next
  assume "findLargestMediaElement doc = Some el \<and> currentTarget s = None"
  then show "currentTarget (step (Trigger doc) s) = Some el"
    by (simp add: assignTarget_finds)
qed

theorem timer_retry_bound_witness:
  "findLargestMediaElement empty_doc = None
   \<and> initAttempts (on_file url_f1 ''f1'' 0 Map.empty) = 0
   \<and> timers (on_file url_f1 ''f1'' 0 Map.empty) = 0
   \<and> statusText (on_file url_f1 ''f1'' 0 Map.empty) \<noteq> None
   \<and> timers (assignTarget empty_doc (on_file url_f1 ''f1'' 0 Map.empty)) = 1
   \<and> statusText (assignTarget empty_doc (on_file url_f1 ''f1'' 0 Map.empty)) = Some (Searching 1)
   \<and> initAttempts (retry_loop empty_doc (assignTarget empty_doc (on_file url_f1 ''f1'' 0 Map.empty))) = 4
   \<and> statusText (retry_loop empty_doc (assignTarget empty_doc (on_file url_f1 ''f1'' 0 Map.empty)))
       = Some NoMediaFound
   \<and> findLargestMediaElement tie_doc = Some (image 1 100 100 100 100)
   \<and> currentTarget ((on_file url_f1 ''f1'' 0 Map.empty)\<lparr>initAttempts := 4\<rparr>) = None
   \<and> currentTarget (step (Trigger tie_doc) ((on_file url_f1 ''f1'' 0 Map.empty)\<lparr>initAttempts := 4\<rparr>))
       = Some (image 1 100 100 100 100)"
proof -
  have none: "findLargestMediaElement empty_doc = None"
    by (rule find_empty_doc)
  have found: "findLargestMediaElement tie_doc = Some (image 1 100 100 100 100)"
    by (simp add: locator_defs tie_doc_def)
  have s: "initAttempts (on_file url_f1 ''f1'' 0 Map.empty) = 0"
    "timers (on_file url_f1 ''f1'' 0 Map.empty) = 0"
    "statusText (on_file url_f1 ''f1'' 0 Map.empty) \<noteq> None"
    "currentTarget ((on_file url_f1 ''f1'' 0 Map.empty)\<lparr>initAttempts := 4\<rparr>) = None"
    by (simp_all add: on_file_def)
  from timer_retry_bound [of empty_doc "on_file url_f1 ''f1'' 0 Map.empty"] none s
  have a: "timers (assignTarget empty_doc (on_file url_f1 ''f1'' 0 Map.empty)) = 1"
    "statusText (assignTarget empty_doc (on_file url_f1 ''f1'' 0 Map.empty)) = Some (Searching 1)"
    "initAttempts (retry_loop empty_doc (assignTarget empty_doc (on_file url_f1 ''f1'' 0 Map.empty))) = 4"
    "statusText (retry_loop empty_doc (assignTarget empty_doc (on_file url_f1 ''f1'' 0 Map.empty)))
       = Some NoMediaFound"
    by simp_all
  from timer_retry_bound [of tie_doc "(on_file url_f1 ''f1'' 0 Map.empty)\<lparr>initAttempts := 4\<rparr>"
      "image 1 100 100 100 100"] found s(4)
  have b: "currentTarget (step (Trigger tie_doc) ((on_file url_f1 ''f1'' 0 Map.empty)\<lparr>initAttempts := 4\<rparr>))
       = Some (image 1 100 100 100 100)"
    by blast
  from none found s a b show ?thesis by blast
qed

text \<open>
  Claim C8 as stated fails: after three consecutive failed attempts a retry timer is
  pending and the label shows the third search, not the terminal message. The fourth
  attempt is the one that sets no timer and shows the terminal message.
\<close>

theorem third_attempt_retries_counterexample:
  "findLargestMediaElement empty_doc = None
   \<and> initAttempts (run [Trigger empty_doc, TimerFires empty_doc, TimerFires empty_doc]
        (on_file url_f1 ''f1'' 0 Map.empty)) = 3
   \<and> timers (run [Trigger empty_doc, TimerFires empty_doc, TimerFires empty_doc]
        (on_file url_f1 ''f1'' 0 Map.empty)) = 1
   \<and> statusText (run [Trigger empty_doc, TimerFires empty_doc, TimerFires empty_doc]
        (on_file url_f1 ''f1'' 0 Map.empty)) = Some (Searching 3)
   \<and> initAttempts (run [Trigger empty_doc, TimerFires empty_doc, TimerFires empty_doc,
        TimerFires empty_doc] (on_file url_f1 ''f1'' 0 Map.empty)) = 4
   \<and> statusText (run [Trigger empty_doc, TimerFires empty_doc, TimerFires empty_doc,
        TimerFires empty_doc] (on_file url_f1 ''f1'' 0 Map.empty)) = Some NoMediaFound"
  by (simp add: find_empty_doc on_file_def assignTarget_def updateToolbarStatus_def Let_def)

subsection \<open>The target is never cleared by a locate attempt\<close>

lemma clickHandler_target [simp]: "currentTarget (clickHandler btn ok s) = currentTarget s"
  by (simp add: clickHandler_def Let_def split: option.splits)

lemma keydownHandler_target [simp]: "currentTarget (keydownHandler e ok s) = currentTarget s"
  by (simp add: keydownHandler_def)

lemma loadRotationState_target [simp]: "currentTarget (loadRotationState s) = currentTarget s"
  by (simp add: loadRotationState_def)

lemma resume_target [simp]: "currentTarget (loadRotationState_resume saved s) = currentTarget s"
  by (simp add: loadRotationState_resume_def Let_def split: option.splits)

lemma tick_target [simp]: "currentTarget (tick now s) = currentTarget s"
  by (simp add: tick_def Let_def)

lemma assignTarget_target:
  "currentTarget (assignTarget doc s) =
     (case findLargestMediaElement doc of
        None \<Rightarrow> currentTarget s
      | Some el \<Rightarrow>
          (case currentTarget s of
             None \<Rightarrow> Some el
           | Some t \<Rightarrow> if el_id el \<noteq> el_id t then Some el else Some t))"
  by (simp add: assignTarget_def Let_def setTarget_def split: option.splits)

lemma assignTarget_styles_fail:
  "findLargestMediaElement doc = None \<Longrightarrow> styles (assignTarget doc s) = styles s"
  by (simp add: assignTarget_def Let_def)

lemma step_keeps_target:
  "ev \<noteq> Teardown \<Longrightarrow> currentTarget s \<noteq> None \<Longrightarrow> currentTarget (step ev s) \<noteq> None"
  by (cases ev) (auto simp: assignTarget_target split: option.splits list.splits)

lemma run_keeps_target:
  "Teardown \<notin> set evs \<Longrightarrow> currentTarget s \<noteq> None \<Longrightarrow> currentTarget (run evs s) \<noteq> None"
proof (induction evs arbitrary: s)
  case Nil
  then show ?case by simp
next
  case (Cons ev evs)
  from Cons.prems have ev: "ev \<noteq> Teardown" and evs: "Teardown \<notin> set evs"
    by auto
  from ev Cons.prems(2) have "currentTarget (step ev s) \<noteq> None"
    by (rule step_keeps_target)
  with evs have "currentTarget (run evs (step ev s)) \<noteq> None"
    by (rule Cons.IH)
  then show ?case by simp
qed

text \<open>
  Claim C9. \<^verbatim>\<open>setTarget\<close> with no element changes nothing. A locate attempt that finds
  nothing leaves the target and every inline style as they were. Once a target is set,
  no sequence of events without \<^verbatim>\<open>teardown\<close> leaves the page without one;
  \<^verbatim>\<open>teardown\<close> does.
\<close>

theorem target_survives_failed_locate:
  "setTarget None s = s
   \<and> (findLargestMediaElement doc = None \<longrightarrow>
        currentTarget (assignTarget doc s) = currentTarget s
        \<and> styles (assignTarget doc s) = styles s)
   \<and> (Teardown \<notin> set evs \<and> currentTarget s \<noteq> None \<longrightarrow> currentTarget (run evs s) \<noteq> None)
   \<and> currentTarget (teardown s) = None"
proof (intro conjI impI)
  show "setTarget None s = s"
    by (simp add: setTarget_def)
  show "currentTarget (teardown s) = None"
    by (simp add: teardown_def)
next
  assume "findLargestMediaElement doc = None"
  then show "currentTarget (assignTarget doc s) = currentTarget s"
    and "styles (assignTarget doc s) = styles s"
    by (simp_all add: assignTarget_target assignTarget_styles_fail)
next
  assume "Teardown \<notin> set evs \<and> currentTarget s \<noteq> None"
  then show "currentTarget (run evs s) \<noteq> None"
    using run_keeps_target by blast
qed

theorem target_survives_failed_locate_witness:
  "findLargestMediaElement empty_doc = None
   \<and> currentTarget with_target = Some (image 1 100 100 100 100)
   \<and> currentTarget (assignTarget empty_doc with_target) = currentTarget with_target
   \<and> styles (assignTarget empty_doc with_target) = styles with_target
   \<and> Teardown \<notin> set [Trigger empty_doc, TimerFires empty_doc, Frame url_f2, StorageReply]
   \<and> currentTarget (run [Trigger empty_doc, TimerFires empty_doc, Frame url_f2, StorageReply]
        with_target) \<noteq> None"
proof -
  have t: "currentTarget with_target = Some (image 1 100 100 100 100)"
    by (simp add: with_target_def setTarget_def)
  from target_survives_failed_locate [of with_target empty_doc
      "[Trigger empty_doc, TimerFires empty_doc, Frame url_f2, StorageReply]"]
    find_empty_doc t
  show ?thesis by simp
qed

subsection \<open>Loading a saved record\<close>

lemma reply_after_request: "inflight s = [] \<Longrightarrow> s\<lparr>inflight := []\<rparr> = s"
  by (cases s) simp

lemma resume_angle:
  "angle (loadRotationState_resume saved s) =
     (case saved of None \<Rightarrow> 0 | Some r \<Rightarrow> (case p_angle r of None \<Rightarrow> 0 | Some a \<Rightarrow> a))"
  by (simp add: loadRotationState_resume_def Let_def split: option.splits)

lemma resume_flipX:
  "flipX (loadRotationState_resume saved s) =
     (case saved of None \<Rightarrow> False | Some r \<Rightarrow> (case p_flipX r of None \<Rightarrow> False | Some f \<Rightarrow> f))"
  by (simp add: loadRotationState_resume_def Let_def split: option.splits)

lemma load_without_file: "currentFileId s \<in> {None, Some []} \<Longrightarrow> loadRotationState s = s"
  by (auto simp: loadRotationState_def truthy_str_def)

lemma load_then_reply:
  assumes "currentFileId s = Some fid" "fid \<noteq> []" "inflight s = []"
  shows "step StorageReply (loadRotationState s)
          = loadRotationState_resume (store s (STORAGE_PREFIX @ fid)) s"
proof -
  have "loadRotationState s = s\<lparr>inflight := inflight s @ [store s (STORAGE_PREFIX @ fid)]\<rparr>"
    using assms by (simp add: loadRotationState_def truthy_str_def loadState_def)
  then show ?thesis
    using assms(3) by (simp add: reply_after_request)
qed

text \<open>
  Claim C10. When the read of the saved record is answered, a stored angle becomes the
  angle whatever its value, a stored flip becomes the flip, and each field that is
  missing gets its default (0, not mirrored) on its own; no record at all gives both
  defaults. Without a file id \<^verbatim>\<open>loadRotationState\<close> changes nothing: no read is
  issued, angle and flip stay. With a file id and no read pending, the answer to the
  read it issues delivers the record stored under the file's key.
\<close>

theorem load_copies_fields_unchecked:
  "angle (loadRotationState_resume (Some \<lparr>p_angle = Some a, p_flipX = fx\<rparr>) s) = a
   \<and> flipX (loadRotationState_resume (Some \<lparr>p_angle = ang, p_flipX = Some f\<rparr>) s) = f
   \<and> angle (loadRotationState_resume (Some \<lparr>p_angle = None, p_flipX = fx\<rparr>) s) = 0
   \<and> flipX (loadRotationState_resume (Some \<lparr>p_angle = ang, p_flipX = None\<rparr>) s) = False
   \<and> angle (loadRotationState_resume None s) = 0
   \<and> flipX (loadRotationState_resume None s) = False
   \<and> (currentFileId s \<in> {None, Some []} \<longrightarrow> loadRotationState s = s)
   \<and> (currentFileId s = Some fid \<and> fid \<noteq> [] \<and> inflight s = [] \<longrightarrow>
        step StorageReply (loadRotationState s)
          = loadRotationState_resume (store s (STORAGE_PREFIX @ fid)) s)"
  using load_without_file [of s] load_then_reply [of s fid]
  by (simp add: resume_angle resume_flipX)




theorem load_copies_fields_unchecked_witness:
  "currentFileId (script_start url_f1 Map.empty) \<in> {None, Some []}
   \<and> loadRotationState (script_start url_f1 Map.empty) = script_start url_f1 Map.empty
   \<and> angle (loadRotationState_resume (Some \<lparr>p_angle = Some 45, p_flipX = None\<rparr>)
        (on_file url_f1 ''f1'' 90 Map.empty)) = 45
   \<and> flipX (loadRotationState_resume (Some \<lparr>p_angle = Some 45, p_flipX = None\<rparr>)
        (on_file url_f1 ''f1'' 90 Map.empty)) = False
   \<and> currentFileId (on_file url_f1 ''f1'' 90 [STORAGE_PREFIX @ ''f1'' \<mapsto> saved_as 180]) = Some ''f1''
   \<and> ''f1'' \<noteq> []
   \<and> inflight (on_file url_f1 ''f1'' 90 [STORAGE_PREFIX @ ''f1'' \<mapsto> saved_as 180]) = []
   \<and> angle (step StorageReply
        (loadRotationState (on_file url_f1 ''f1'' 90 [STORAGE_PREFIX @ ''f1'' \<mapsto> saved_as 180])))
       = 180"
proof -
  have a: "currentFileId (script_start url_f1 Map.empty) \<in> {None, Some []}"
    by (simp add: script_start_def)
  from load_copies_fields_unchecked [of 45 None "on_file url_f1 ''f1'' 90 Map.empty" "Some 45"]
  have b: "angle (loadRotationState_resume (Some \<lparr>p_angle = Some 45, p_flipX = None\<rparr>)
        (on_file url_f1 ''f1'' 90 Map.empty)) = 45"
    "flipX (loadRotationState_resume (Some \<lparr>p_angle = Some 45, p_flipX = None\<rparr>)
        (on_file url_f1 ''f1'' 90 Map.empty)) = False"
    by simp_all
  from load_copies_fields_unchecked [where s = "script_start url_f1 Map.empty"] a
  have c: "loadRotationState (script_start url_f1 Map.empty) = script_start url_f1 Map.empty"
    by blast
  have d: "currentFileId (on_file url_f1 ''f1'' 90 [STORAGE_PREFIX @ ''f1'' \<mapsto> saved_as 180]) = Some ''f1''"
    "inflight (on_file url_f1 ''f1'' 90 [STORAGE_PREFIX @ ''f1'' \<mapsto> saved_as 180]) = []"
    by (simp_all add: on_file_def)
  from load_copies_fields_unchecked
    [where s = "on_file url_f1 ''f1'' 90 [STORAGE_PREFIX @ ''f1'' \<mapsto> saved_as 180]"
       and fid = "''f1''"] d
  have "step StorageReply
        (loadRotationState (on_file url_f1 ''f1'' 90 [STORAGE_PREFIX @ ''f1'' \<mapsto> saved_as 180]))
      = loadRotationState_resume
          (store (on_file url_f1 ''f1'' 90 [STORAGE_PREFIX @ ''f1'' \<mapsto> saved_as 180])
             (STORAGE_PREFIX @ ''f1''))
          (on_file url_f1 ''f1'' 90 [STORAGE_PREFIX @ ''f1'' \<mapsto> saved_as 180])"
    by simp
  then have e: "angle (step StorageReply
        (loadRotationState (on_file url_f1 ''f1'' 90 [STORAGE_PREFIX @ ''f1'' \<mapsto> saved_as 180])))
       = 180"
    by (simp add: resume_angle on_file_def saved_as_def)
  from a b c d e show ?thesis by simp
qed

subsection \<open>The end-to-end scenario\<close>

lemma fid1: "fileIdOrGeneral url_f1 = ''f1''" by (simp add: fileIdOrGeneral_def url_f1_def)
lemma fid2: "fileIdOrGeneral url_f2 = ''f2''" by (simp add: fileIdOrGeneral_def url_f2_def)
lemma drive1: "isDriveUrl url_f1" by (simp add: isDriveUrl_def url_f1_def)
lemma urls_differ: "url_f1 \<noteq> url_f2" by (simp add: url_f1_def url_f2_def)

lemma on_f1_state:
  assumes "st (STORAGE_PREFIX @ ''f1'') = None"
  shows "on_f1 st = \<lparr>currentFileId = Some ''f1'', currentTarget = None, angle = 0, flipX = False,
      initAttempts = 0, last_href = url_f1, statusText = Some LookingForMedia, styles = Map.empty,
      store = st, inflight = [], timers = 0\<rparr>"
  using assms
  by (simp add: on_f1_def init_def drive1 initOnDrive_def fid1 script_start_def ensureToolbar_def
        loadRotationState_def truthy_str_def loadState_def loadRotationState_resume_def Let_def)
     (simp add: url_f1_def)


lemma on_f1_eq: "st (STORAGE_PREFIX @ ''f1'') = None \<Longrightarrow> on_f1 st = on_file url_f1 ''f1'' 0 st"
  by (simp add: on_f1_state on_file_def)

lemma rr0: "rotateRight 0 = 90" by (simp add: rotateRight_in_range)
lemma rr90: "rotateRight 90 = 180" by (simp add: rotateRight_in_range)
lemma rr180: "rotateRight 180 = 270" by (simp add: rotateRight_in_range)

lemma click_right_on_file:
  "fid \<noteq> [] \<Longrightarrow>
   step click_right (on_file url fid a st) =
     on_file url fid (rotateRight a) (st(STORAGE_PREFIX @ fid \<mapsto> saved_as (rotateRight a)))"
  by (simp add: click_right_def on_file_def clickHandler_def applyAndSave_def applyTransform_def
        saveState_def storage_set_def Let_def saved_as_def)

lemma switch_file:
  assumes "url' \<noteq> url" "fileIdOrGeneral url' = fid'" "fid' \<noteq> fid" "fid' \<noteq> []"
  shows "run [Frame url', StorageReply] (on_file url fid a st) =
     on_file url' fid' (case st (STORAGE_PREFIX @ fid') of
                          None \<Rightarrow> 0
                        | Some r \<Rightarrow> (case p_angle r of None \<Rightarrow> 0 | Some b \<Rightarrow> b)) st
       \<lparr>flipX := (case st (STORAGE_PREFIX @ fid') of
                          None \<Rightarrow> False
                        | Some r \<Rightarrow> (case p_flipX r of None \<Rightarrow> False | Some f \<Rightarrow> f))\<rparr>"
  using assms
  by (simp add: on_file_def tick_def loadRotationState_def truthy_str_def loadState_def
        loadRotationState_resume_def Let_def)

text \<open>
  Claim C4. The script starts on file \<open>f1\<close> with nothing saved for \<open>f1\<close> or \<open>f2\<close>: the
  angle is 0, unmirrored. Three clicks on rotate-right take the angle to 90, 180 and
  270, and after each click the record stored for \<open>f1\<close> holds the new angle. When the
  address changes to file \<open>f2\<close> and the read is answered, the state is angle 0,
  unmirrored. When the address changes back to \<open>f1\<close> and the read is answered, the
  state is angle 270, unmirrored.
\<close>

theorem end_to_end_two_files:
  assumes "st (STORAGE_PREFIX @ ''f1'') = None" and "st (STORAGE_PREFIX @ ''f2'') = None"
  shows "currentFileId (on_f1 st) = Some ''f1'' \<and> angle (on_f1 st) = 0 \<and> flipX (on_f1 st) = False
     \<and> angle (run [click_right] (on_f1 st)) = 90
     \<and> loadState (Some ''f1'') (store (run [click_right] (on_f1 st))) = Some (saved_as 90)
     \<and> angle (run [click_right, click_right] (on_f1 st)) = 180
     \<and> loadState (Some ''f1'') (store (run [click_right, click_right] (on_f1 st)))
           = Some (saved_as 180)
     \<and> angle (run [click_right, click_right, click_right] (on_f1 st)) = 270
     \<and> loadState (Some ''f1'') (store (run [click_right, click_right, click_right] (on_f1 st)))
           = Some (saved_as 270)
     \<and> currentFileId (run [click_right, click_right, click_right, Frame url_f2, StorageReply]
           (on_f1 st)) = Some ''f2''
     \<and> angle (run [click_right, click_right, click_right, Frame url_f2, StorageReply]
           (on_f1 st)) = 0
     \<and> flipX (run [click_right, click_right, click_right, Frame url_f2, StorageReply]
           (on_f1 st)) = False
     \<and> currentFileId (run [click_right, click_right, click_right, Frame url_f2, StorageReply,
           Frame url_f1, StorageReply] (on_f1 st)) = Some ''f1''
     \<and> angle (run [click_right, click_right, click_right, Frame url_f2, StorageReply,
           Frame url_f1, StorageReply] (on_f1 st)) = 270
     \<and> flipX (run [click_right, click_right, click_right, Frame url_f2, StorageReply,
           Frame url_f1, StorageReply] (on_f1 st)) = False"
proof -
  let ?k = "STORAGE_PREFIX @ ''f1''"
  let ?st1 = "st(?k \<mapsto> saved_as 90)"
  let ?st2 = "st(?k \<mapsto> saved_as 180)"
  let ?st3 = "st(?k \<mapsto> saved_as 270)"
  have s0: "on_f1 st = on_file url_f1 ''f1'' 0 st"
    using assms(1) by (rule on_f1_eq)
  have s1: "run [click_right] (on_f1 st) = on_file url_f1 ''f1'' 90 ?st1"
    by (simp add: s0 click_right_on_file rr0)
  have s2: "run [click_right, click_right] (on_f1 st) = on_file url_f1 ''f1'' 180 ?st2"
    by (simp add: s0 click_right_on_file rr0 rr90)
  have s3: "run [click_right, click_right, click_right] (on_f1 st) = on_file url_f1 ''f1'' 270 ?st3"
    by (simp add: s0 click_right_on_file rr0 rr90 rr180)
  have "run [click_right, click_right, click_right, Frame url_f2, StorageReply] (on_f1 st)
          = run [Frame url_f2, StorageReply] (run [click_right, click_right, click_right] (on_f1 st))"
    by simp
  also have "\<dots> = on_file url_f2 ''f2'' 0 ?st3"
    unfolding s3 using assms(2) urls_differ
    by (subst switch_file [where fid' = "''f2''"]) (simp_all add: fid2 on_file_def)
  finally have s4: "run [click_right, click_right, click_right, Frame url_f2, StorageReply] (on_f1 st)
          = on_file url_f2 ''f2'' 0 ?st3" .
  have "run [click_right, click_right, click_right, Frame url_f2, StorageReply,
           Frame url_f1, StorageReply] (on_f1 st)
          = run [Frame url_f1, StorageReply]
              (run [click_right, click_right, click_right, Frame url_f2, StorageReply] (on_f1 st))"
    by simp
  also have "\<dots> = on_file url_f1 ''f1'' 270 ?st3"
    unfolding s4 using urls_differ
    by (subst switch_file [where fid' = "''f1''"]) (simp_all add: fid1 on_file_def saved_as_def)
  finally have s5: "run [click_right, click_right, click_right, Frame url_f2, StorageReply,
           Frame url_f1, StorageReply] (on_f1 st) = on_file url_f1 ''f1'' 270 ?st3" .
  have a0: "currentFileId (on_f1 st) = Some ''f1'' \<and> angle (on_f1 st) = 0 \<and> flipX (on_f1 st) = False"
    unfolding s0 by (simp add: on_file_def)
  have a1: "angle (run [click_right] (on_f1 st)) = 90
     \<and> loadState (Some ''f1'') (store (run [click_right] (on_f1 st))) = Some (saved_as 90)"
    unfolding s1 by (simp add: on_file_def loadState_def)
  have a2: "angle (run [click_right, click_right] (on_f1 st)) = 180
     \<and> loadState (Some ''f1'') (store (run [click_right, click_right] (on_f1 st)))
           = Some (saved_as 180)"
    unfolding s2 by (simp add: on_file_def loadState_def)
  have a3: "angle (run [click_right, click_right, click_right] (on_f1 st)) = 270
     \<and> loadState (Some ''f1'') (store (run [click_right, click_right, click_right] (on_f1 st)))
           = Some (saved_as 270)"
    unfolding s3 by (simp add: on_file_def loadState_def)
  have a4: "currentFileId (run [click_right, click_right, click_right, Frame url_f2, StorageReply]
           (on_f1 st)) = Some ''f2''
     \<and> angle (run [click_right, click_right, click_right, Frame url_f2, StorageReply]
           (on_f1 st)) = 0
     \<and> flipX (run [click_right, click_right, click_right, Frame url_f2, StorageReply]
           (on_f1 st)) = False"
    unfolding s4 by (simp add: on_file_def)
  have a5: "currentFileId (run [click_right, click_right, click_right, Frame url_f2, StorageReply,
           Frame url_f1, StorageReply] (on_f1 st)) = Some ''f1''
     \<and> angle (run [click_right, click_right, click_right, Frame url_f2, StorageReply,
           Frame url_f1, StorageReply] (on_f1 st)) = 270
     \<and> flipX (run [click_right, click_right, click_right, Frame url_f2, StorageReply,
           Frame url_f1, StorageReply] (on_f1 st)) = False"
    unfolding s5 by (simp add: on_file_def)
  from a0 a1 a2 a3 a4 a5 show ?thesis by blast
qed

theorem end_to_end_two_files_witness:
  "Map.empty (STORAGE_PREFIX @ ''f1'') = (None :: persisted option)
   \<and> Map.empty (STORAGE_PREFIX @ ''f2'') = (None :: persisted option)
   \<and> angle (run [click_right, click_right, click_right] (on_f1 Map.empty)) = 270
   \<and> angle (run [click_right, click_right, click_right, Frame url_f2, StorageReply]
         (on_f1 Map.empty)) = 0
   \<and> flipX (run [click_right, click_right, click_right, Frame url_f2, StorageReply]
         (on_f1 Map.empty)) = False
   \<and> angle (run [click_right, click_right, click_right, Frame url_f2, StorageReply,
         Frame url_f1, StorageReply] (on_f1 Map.empty)) = 270
   \<and> flipX (run [click_right, click_right, click_right, Frame url_f2, StorageReply,
         Frame url_f1, StorageReply] (on_f1 Map.empty)) = False"
  using end_to_end_two_files [of Map.empty] by simp

end
